theory Spec2Isabelle
  imports Complex_Main
begin

section \<open>The spiking XOR evaluator of \<^verbatim>\<open>examples/xor/evolve-spiking.py\<close>\<close>

text \<open>
  The theory embeds the evaluator of the spiking-network XOR example: the decoder
  \<^verbatim>\<open>compute_output\<close>, the trial loop of \<^verbatim>\<open>simulate\<close> and \<^verbatim>\<open>eval_fitness\<close>.

  Conventions of the embedding.
  \<^item> A Python \<^verbatim>\<open>float\<close> is the \<^typ>\<open>real\<close> number it denotes. An arithmetic operation on
    floats is the exact operation followed by the rounding \<open>fl\<close> of binary64, and a
    decimal literal is the rounding of its value.
  \<^item> \<^verbatim>\<open>None\<close> or a float is a \<^typ>\<open>real option\<close>.
  \<^item> An exception is the left summand of a sum type.
  \<^item> The network object comes from the library \<^verbatim>\<open>neat.iznn\<close>, which the example
    only calls; its methods are the fields of a record of functions over an
    arbitrary network state.
\<close>

subsection \<open>Module constants\<close>

definition xor_inputs :: "(int \<times> int) list" where
  "xor_inputs = [(0, 0), (0, 1), (1, 0), (1, 1)]"

definition xor_outputs :: "int list" where
  "xor_outputs = [0, 1, 1, 0]"

definition max_time :: real where
  "max_time = 50"

definition dt :: real where
  "dt = 25 / 100"

subsection \<open>Binary64 arithmetic\<close>

text \<open>
  Python floats are IEEE 754 binary64 numbers: the result of an operation is the exact
  result rounded to the nearest number with a significand of 53 bits, a tie going to
  the even significand. \<open>rne\<close> rounds a real number to the nearest integer, ties to even;
  \<open>ulp x\<close> is the distance of neighbouring floats in the binade of \<open>x\<close>; \<open>fl\<close> is the
  rounding. The exponent is not bounded here: overflow to infinity and subnormal
  numbers are left out. The times that \<^verbatim>\<open>simulate\<close> decodes are multiples of \<open>dt\<close> below
  \<open>max_time\<close>, and the errors it adds are at most 4, so neither occurs. Outside this
  range the decoder's result is not affected either: a distance that overflows is
  clamped to 0, and a product in the subnormal range vanishes against 1.1.
\<close>

definition rne :: "real \<Rightarrow> int" where
  "rne x =
     (let f = \<lfloor>x\<rfloor>; r = x - real_of_int f
      in if r < 1 / 2 then f else if 1 / 2 < r then f + 1 else if even f then f else f + 1)"

definition ulp :: "real \<Rightarrow> real" where
  "ulp x = 2 powr real_of_int (\<lfloor>log 2 \<bar>x\<bar>\<rfloor> - 52)"

definition fl :: "real \<Rightarrow> real" where
  "fl x = (if x = 0 then 0 else sgn x * (real_of_int (rne (\<bar>x\<bar> / ulp x)) * ulp x))"

subsection \<open>Decoding the two first-spike times\<close>

text \<open>
  \<^verbatim>\<open>
  def compute_output(t0, t1):
      if t0 is None or t1 is None:
          return -1.0
      else:
          response = 1.1 - 0.1 * abs(t0 - t1)
          return max(0.0, min(1.0, response))
  \<close>
  The subtraction, the product and the difference round; \<^verbatim>\<open>abs\<close>, \<^verbatim>\<open>min\<close> and \<^verbatim>\<open>max\<close>
  are exact. The literals \<^verbatim>\<open>1.1\<close> and \<^verbatim>\<open>0.1\<close> are the floats nearest to 11/10 and 1/10.
\<close>

definition compute_output :: "real option \<Rightarrow> real option \<Rightarrow> real" where
  "compute_output t0 t1 =
     (if t0 = None \<or> t1 = None then - 1
      else (let response = fl (fl (11 / 10) - fl (fl (1 / 10) * \<bar>fl (the t0 - the t1)\<bar>))
            in max 0 (min 1 response)))"

text \<open>The clamp of the specification, written from its words: a value below the lower
  bound becomes the lower bound, one above the upper bound becomes the upper bound.\<close>

definition clamp :: "real \<Rightarrow> real \<Rightarrow> real \<Rightarrow> real" where
  "clamp x lo hi = (if x < lo then lo else if hi < x then hi else x)"

subsection \<open>Python values and exceptions\<close>

datatype py_error = IndexError | KeyError

text \<open>\<^verbatim>\<open>int(x)\<close> on a float truncates towards zero.\<close>

definition py_int :: "real \<Rightarrow> int" where
  "py_int x = (if 0 \<le> x then \<lfloor>x\<rfloor> else \<lceil>x\<rceil>)"

text \<open>\<^verbatim>\<open>xs[i]\<close> on a list: a negative index counts from the end, an index out of
  range raises \<^verbatim>\<open>IndexError\<close>.\<close>

definition py_index :: "'a list \<Rightarrow> int \<Rightarrow> py_error + 'a" where
  "py_index xs i =
     (let n = int (length xs); k = (if i < 0 then i + n else i)
      in if 0 \<le> k \<and> k < n then Inr (xs ! nat k) else Inl IndexError)"

text \<open>\<^verbatim>\<open>d[k]\<close> on a dict: a missing key raises \<^verbatim>\<open>KeyError\<close>.\<close>

definition py_getitem :: "('k \<rightharpoonup> 'v) \<Rightarrow> 'k \<Rightarrow> py_error + 'v" where
  "py_getitem d k = (case d k of None \<Rightarrow> Inl KeyError | Some v \<Rightarrow> Inr v)"

subsection \<open>The network library, as the example uses it\<close>

text \<open>
  The example calls \<^verbatim>\<open>neat.iznn.create_phenotype(genome, **neuron_params)\<close>, and on the
  network it returns \<^verbatim>\<open>net.neurons.items()\<close> (read as the pairs of a neuron's id and its
  potential \<^verbatim>\<open>n.v\<close>, in the dict's order), \<^verbatim>\<open>net.outputs\<close>, \<^verbatim>\<open>net.reset()\<close>,
  \<^verbatim>\<open>net.set_inputs(inputData)\<close> and \<^verbatim>\<open>net.advance(dt)\<close>. The library is not part of the
  example: it is a parameter, a record of functions on a network state of any type.
  A method that mutates the network returns the new network; \<open>advance\<close> returns the
  list of the output neurons' firing values and the new network. The library's calls
  are taken to return normally.
\<close>

record ('g, 'net) iznn =
  create_phenotype :: "'g \<Rightarrow> 'net"
  neurons :: "'net \<Rightarrow> (int \<times> real) list"
  outputs :: "'net \<Rightarrow> int list"
  reset :: "'net \<Rightarrow> 'net"
  set_inputs :: "'net \<Rightarrow> int \<times> int \<Rightarrow> 'net"
  advance :: "'net \<Rightarrow> real \<Rightarrow> real list \<times> 'net"

subsection \<open>One trial of \<^verbatim>\<open>simulate\<close>\<close>

text \<open>A sample \<^verbatim>\<open>(t, n.v)\<close>, and the dict \<^verbatim>\<open>neuron_data\<close> from neuron ids to the list of
  their samples.\<close>

type_synonym sample = "real \<times> real"
type_synonym neuron_data = "int \<rightharpoonup> sample list"

text \<open>
  \<^verbatim>\<open>
  neuron_data = {}
  for i, n in net.neurons.items():
      neuron_data[i] = []
  \<close>
\<close>

fun init_data :: "(int \<times> real) list \<Rightarrow> neuron_data \<Rightarrow> neuron_data" where
  "init_data [] nd = nd"
| "init_data ((i, n) # items) nd = init_data items (nd(i \<mapsto> []))"

text \<open>
  \<^verbatim>\<open>
  for i, n in net.neurons.items():
      neuron_data[i].append((t, n.v))
  \<close>
\<close>

fun append_samples :: "(int \<times> real) list \<Rightarrow> real \<Rightarrow> neuron_data \<Rightarrow> py_error + neuron_data" where
  "append_samples [] t nd = Inr nd"
| "append_samples ((i, v) # items) t nd =
     (case py_getitem nd i of
        Inl e \<Rightarrow> Inl e
      | Inr xs \<Rightarrow> append_samples items t (nd(i \<mapsto> xs @ [(t, v)])))"

text \<open>
  The source has the following statement twice, for the output slot \<open>k = 0\<close> (variables
  \<^verbatim>\<open>t0\<close>, \<^verbatim>\<open>v0\<close>) and for \<open>k = 1\<close> (\<^verbatim>\<open>t1\<close>, \<^verbatim>\<open>v1\<close>):
  \<^verbatim>\<open>
  if t0 is None and output[0] > 0:
      t0, v0 = neuron_data[net.outputs[0]][-2]
  \<close>
  \<open>first_spike\<close> takes the current pair \<open>(tk, vk)\<close> and returns the new one. The
  \<^verbatim>\<open>and\<close> is lazy: \<^verbatim>\<open>output[k]\<close> is read only while \<open>tk\<close> is \<^verbatim>\<open>None\<close>.
\<close>

definition first_spike ::
  "('g, 'net) iznn \<Rightarrow> 'net \<Rightarrow> neuron_data \<Rightarrow> real list \<Rightarrow> int \<Rightarrow>
     real option \<times> real option \<Rightarrow> py_error + (real option \<times> real option)" where
  "first_spike lib net nd output k tv =
     (if fst tv = None then
        (case py_index output k of
           Inl e \<Rightarrow> Inl e
         | Inr fired \<Rightarrow>
             if 0 < fired then
               (case py_index (outputs lib net) k of
                  Inl e \<Rightarrow> Inl e
                | Inr key \<Rightarrow>
                    (case py_getitem nd key of
                       Inl e \<Rightarrow> Inl e
                     | Inr trace \<Rightarrow>
                         (case py_index trace (- 2) of
                            Inl e \<Rightarrow> Inl e
                          | Inr (t, v) \<Rightarrow> Inr (Some t, Some v))))
             else Inr tv)
      else Inr tv)"

text \<open>The variables of the step loop.\<close>

record 'net trial_state =
  net :: 'net
  neuron_data :: neuron_data
  t0 :: "real option"
  t1 :: "real option"
  v0 :: "real option"
  v1 :: "real option"

text \<open>
  The body of the step loop, at step \<open>j\<close>:
  \<^verbatim>\<open>
  t = dt * j
  output = net.advance(dt)
  for i, n in net.neurons.items():
      neuron_data[i].append((t, n.v))
  if t0 is None and output[0] > 0:
      t0, v0 = neuron_data[net.outputs[0]][-2]
  if t1 is None and output[1] > 0:
      t1, v1 = neuron_data[net.outputs[1]][-2]
  \<close>
  The product \<^verbatim>\<open>dt * j\<close> is a multiple of 1/4 below 50: binary64 computes it exactly
  (lemma \<open>step_time_exact\<close> below), and no rounding is written.
\<close>

definition step :: "('g, 'net) iznn \<Rightarrow> nat \<Rightarrow> 'net trial_state \<Rightarrow> py_error + 'net trial_state" where
  "step lib j s =
     (let t = dt * real j;
          (output, net') = advance lib (net s) dt
      in case append_samples (neurons lib net') t (neuron_data s) of
           Inl e \<Rightarrow> Inl e
         | Inr nd \<Rightarrow>
             (case first_spike lib net' nd output 0 (t0 s, v0 s) of
                Inl e \<Rightarrow> Inl e
              | Inr (t0', v0') \<Rightarrow>
                  (case first_spike lib net' nd output 1 (t1 s, v1 s) of
                     Inl e \<Rightarrow> Inl e
                   | Inr (t1', v1') \<Rightarrow>
                       Inr \<lparr>net = net', neuron_data = nd,
                            t0 = t0', t1 = t1', v0 = v0', v1 = v1'\<rparr>)))"

text \<open>\<^verbatim>\<open>for j in range(num_steps): ...\<close>, over the list of the values of \<open>j\<close>; an
  exception ends the loop.\<close>

fun steps :: "('g, 'net) iznn \<Rightarrow> nat list \<Rightarrow> 'net trial_state \<Rightarrow> py_error + 'net trial_state" where
  "steps lib [] s = Inr s"
| "steps lib (j # js) s =
     (case step lib j s of Inl e \<Rightarrow> Inl e | Inr s' \<Rightarrow> steps lib js s')"

text \<open>\<^verbatim>\<open>num_steps = int(max_time / dt)\<close>, and \<^verbatim>\<open>range(num_steps)\<close>, which is empty for a
  count that is not positive.\<close>

definition num_steps :: int where
  "num_steps = py_int (max_time / dt)"

definition py_range :: "int \<Rightarrow> nat list" where
  "py_range n = [0..<nat n]"

text \<open>
  One pass of the loop over the truth table, up to the end of the step loop:
  \<^verbatim>\<open>
  neuron_data = {}
  for i, n in net.neurons.items():
      neuron_data[i] = []
  net.reset()
  net.set_inputs(inputData)
  t0 = None; t1 = None; v0 = None; v1 = None
  num_steps = int(max_time / dt)
  for j in range(num_steps): ...
  \<close>
\<close>

definition trial_start :: "('g, 'net) iznn \<Rightarrow> 'net \<Rightarrow> int \<times> int \<Rightarrow> 'net trial_state" where
  "trial_start lib net0 inputData =
     (let nd = init_data (neurons lib net0) Map.empty;
          net1 = reset lib net0;
          net2 = set_inputs lib net1 inputData
      in \<lparr>net = net2, neuron_data = nd, t0 = None, t1 = None, v0 = None, v1 = None\<rparr>)"

definition run_trial :: "('g, 'net) iznn \<Rightarrow> 'net \<Rightarrow> int \<times> int \<Rightarrow> py_error + 'net trial_state" where
  "run_trial lib net0 inputData = steps lib (py_range num_steps) (trial_start lib net0 inputData)"

subsection \<open>\<^verbatim>\<open>simulate\<close> and \<^verbatim>\<open>eval_fitness\<close>\<close>

text \<open>An element of \<^verbatim>\<open>simulated\<close>: the tuple
  \<^verbatim>\<open>(inputData, outputData, t0, t1, v0, v1, neuron_data)\<close>.\<close>

type_synonym trial_record =
  "(int \<times> int) \<times> int \<times> real option \<times> real option \<times> real option \<times> real option \<times> neuron_data"

text \<open>
  \<^verbatim>\<open>
  for inputData, outputData in zip(xor_inputs, xor_outputs):
      ... the trial ...
      response = compute_output(t0, t1)
      sum_square_error += (response - outputData) ** 2
      simulated.append((inputData, outputData, t0, t1, v0, v1, neuron_data))
  return sum_square_error, simulated
  \<close>
  The network object lives through all the trials: each trial starts from the state
  the previous one left. The difference, the square and the sum round; \<^verbatim>\<open>x ** 2\<close> is
  the C library's \<^verbatim>\<open>pow(x, 2.0)\<close>, taken here as the rounding of the exact square.
\<close>

fun trials ::
  "('g, 'net) iznn \<Rightarrow> ((int \<times> int) \<times> int) list \<Rightarrow> 'net \<Rightarrow> real \<Rightarrow> trial_record list \<Rightarrow>
     py_error + (real \<times> trial_record list)" where
  "trials lib [] net0 sum_square_error simulated = Inr (sum_square_error, simulated)"
| "trials lib ((inputData, outputData) # rest) net0 sum_square_error simulated =
     (case run_trial lib net0 inputData of
        Inl e \<Rightarrow> Inl e
      | Inr s \<Rightarrow>
          (let response = compute_output (t0 s) (t1 s)
           in trials lib rest (net s)
                (fl (sum_square_error + fl ((fl (response - real_of_int outputData)) ^ 2)))
                (simulated @ [(inputData, outputData, t0 s, t1 s, v0 s, v1 s, neuron_data s)])))"

definition simulate :: "('g, 'net) iznn \<Rightarrow> 'g \<Rightarrow> py_error + (real \<times> trial_record list)" where
  "simulate lib genome =
     (let net0 = create_phenotype lib genome
      in trials lib (zip xor_inputs xor_outputs) net0 0 [])"

text \<open>
  \<^verbatim>\<open>
  def eval_fitness(genomes):
      for genome in genomes:
          sum_square_error, simulated = simulate(genome)
          genome.fitness = 1 - sum_square_error
  \<close>
  A genome object is its content for the library together with its attribute
  \<^verbatim>\<open>fitness\<close>. The function returns the genomes as the loop leaves them, and the
  exception that ended it, if any. The difference \<^verbatim>\<open>1 - sum_square_error\<close> rounds.
\<close>

record 'g genome =
  genes :: 'g
  fitness :: "real option"

fun eval_fitness ::
  "('g genome, 'net) iznn \<Rightarrow> 'g genome list \<Rightarrow> 'g genome list \<times> py_error option" where
  "eval_fitness lib [] = ([], None)"
| "eval_fitness lib (genome # rest) =
     (case simulate lib genome of
        Inl e \<Rightarrow> (genome # rest, Some e)
      | Inr (sum_square_error, simulated) \<Rightarrow>
          (let (rest', err) = eval_fitness lib rest
           in (genome\<lparr>fitness := Some (fl (1 - sum_square_error))\<rparr> # rest', err)))"

subsection \<open>A scripted network\<close>

text \<open>
  A hand-built network for concrete runs. It has the two neurons 0 and 1, both
  outputs. Its state is \<open>(f0, f1, c)\<close>: \<open>c\<close> counts the calls of \<open>advance\<close> since the last
  reset, and output \<open>k\<close> fires in the call number \<open>fk\<close> and in every third call after
  it. The potential of neuron 0 is \<open>c\<close>, that of neuron 1 is \<open>- c\<close>.
\<close>

type_synonym scripted = "nat \<times> nat \<times> nat"

definition fires :: "nat \<Rightarrow> nat \<Rightarrow> real" where
  "fires f c = (if f \<le> c \<and> (c - f) mod 3 = 0 then 1 else 0)"

definition scripted_lib :: "(scripted genome, scripted) iznn" where
  "scripted_lib =
     \<lparr>create_phenotype = genes,
      neurons = (\<lambda>(f0, f1, c). [(0, real c), (1, - real c)]),
      outputs = (\<lambda>_. [0, 1]),
      reset = (\<lambda>(f0, f1, c). (f0, f1, 0)),
      set_inputs = (\<lambda>n _. n),
      advance = (\<lambda>(f0, f1, c) d. ([fires f0 c, fires f1 c], (f0, f1, Suc c)))\<rparr>"

section \<open>Notions used in the statements\<close>

text \<open>The definitions of this section are not part of the program. They name what the
  properties below speak about.\<close>

subsection \<open>The run of the network\<close>

text \<open>The network after \<open>k\<close> calls of \<^verbatim>\<open>net.advance(dt)\<close>, the list that call number \<open>j\<close>
  (counted from 0) returns, and whether output slot \<open>k\<close> fires in it: the test
  \<^verbatim>\<open>output[k] > 0\<close> of the source.\<close>

definition net_at :: "('g, 'net) iznn \<Rightarrow> 'net \<Rightarrow> nat \<Rightarrow> 'net" where
  "net_at lib n k = ((\<lambda>m. snd (advance lib m dt)) ^^ k) n"

definition output_at :: "('g, 'net) iznn \<Rightarrow> 'net \<Rightarrow> nat \<Rightarrow> real list" where
  "output_at lib n j = fst (advance lib (net_at lib n j) dt)"

definition fired_at :: "('g, 'net) iznn \<Rightarrow> 'net \<Rightarrow> nat \<Rightarrow> nat \<Rightarrow> bool" where
  "fired_at lib n k j \<longleftrightarrow> k < length (output_at lib n j) \<and> 0 < output_at lib n j ! k"

text \<open>
  What the example relies on in the library: \<^verbatim>\<open>net.neurons\<close> is a dict (its keys are
  distinct) whose keys no method changes, and every entry of \<^verbatim>\<open>net.outputs\<close> is one of
  its keys.
\<close>

definition wf_lib :: "('g, 'net) iznn \<Rightarrow> bool" where
  "wf_lib lib \<longleftrightarrow>
     (\<forall>n. distinct (map fst (neurons lib n)))
   \<and> (\<forall>n. map fst (neurons lib (reset lib n)) = map fst (neurons lib n))
   \<and> (\<forall>n x. map fst (neurons lib (set_inputs lib n x)) = map fst (neurons lib n))
   \<and> (\<forall>n d. map fst (neurons lib (snd (advance lib n d))) = map fst (neurons lib n))
   \<and> (\<forall>n. set (outputs lib n) \<subseteq> set (map fst (neurons lib n)))"

text \<open>The sample that step \<open>j\<close> appends for neuron \<open>i\<close>, and the dict \<^verbatim>\<open>neuron_data\<close>
  after \<open>m\<close> steps over the neuron ids \<open>ids\<close>.\<close>

definition sample_at :: "('g, 'net) iznn \<Rightarrow> 'net \<Rightarrow> int \<Rightarrow> nat \<Rightarrow> sample" where
  "sample_at lib n i j = (dt * real j, the (map_of (neurons lib (net_at lib n (Suc j))) i))"

definition traces :: "('g, 'net) iznn \<Rightarrow> 'net \<Rightarrow> int list \<Rightarrow> nat \<Rightarrow> neuron_data" where
  "traces lib n ids m = (\<lambda>i. if i \<in> set ids then Some (map (sample_at lib n i) [0..<m]) else None)"

text \<open>The pair that the look-back \<^verbatim>\<open>neuron_data[net.outputs[k]][-2]\<close> reads in step \<open>j\<close>,
  and the pair \<open>(tk, vk)\<close> after \<open>m\<close> steps: the look-back of the first step in which
  slot \<open>k\<close> fires, if there is one.\<close>

definition lookback ::
  "('g, 'net) iznn \<Rightarrow> 'net \<Rightarrow> nat \<Rightarrow> nat \<Rightarrow> real option \<times> real option" where
  "lookback lib n k j =
     (let key = outputs lib (net_at lib n (Suc j)) ! k;
          (t, v) = sample_at lib n key (j - 1)
      in (Some t, Some v))"

definition slot_after ::
  "('g, 'net) iznn \<Rightarrow> 'net \<Rightarrow> nat \<Rightarrow> nat \<Rightarrow> real option \<times> real option" where
  "slot_after lib n k m =
     (case find (fired_at lib n k) [0..<m] of
        None \<Rightarrow> (None, None)
      | Some j \<Rightarrow> lookback lib n k j)"

text \<open>The loop variables after \<open>m\<close> steps that raise nothing, and the condition under
  which step \<open>m\<close> raises in the statement of slot \<open>k\<close>: the slot is still empty, and
  either \<^verbatim>\<open>output[k]\<close> or \<^verbatim>\<open>net.outputs[k]\<close> is out of range, or the slot fires in the
  very first step.\<close>

definition state_after ::
  "('g, 'net) iznn \<Rightarrow> 'net \<Rightarrow> int list \<Rightarrow> nat \<Rightarrow> 'net trial_state" where
  "state_after lib n ids m =
     \<lparr>net = net_at lib n m, neuron_data = traces lib n ids m,
      t0 = fst (slot_after lib n 0 m), t1 = fst (slot_after lib n 1 m),
      v0 = snd (slot_after lib n 0 m), v1 = snd (slot_after lib n 1 m)\<rparr>"

definition raises :: "('g, 'net) iznn \<Rightarrow> 'net \<Rightarrow> nat \<Rightarrow> nat \<Rightarrow> bool" where
  "raises lib n k m \<longleftrightarrow>
     fst (slot_after lib n k m) = None \<and>
     (\<not> k < length (output_at lib n m) \<or>
      (0 < output_at lib n m ! k \<and>
       (\<not> k < length (outputs lib (net_at lib n (Suc m))) \<or> m = 0)))"

text \<open>The pair \<open>(t0, v0)\<close> or \<open>(t1, v1)\<close> of a state.\<close>

definition recorded :: "nat \<Rightarrow> 'net trial_state \<Rightarrow> real option \<times> real option" where
  "recorded k s = (if k = 0 then (t0 s, v0 s) else (t1 s, v1 s))"

text \<open>The number of iterations of the step loop that are entered. Each of them calls
  \<^verbatim>\<open>net.advance(dt)\<close> once, so this is the number of calls of \<open>advance\<close>; an iteration
  that raises is the last one.\<close>

fun iterations :: "('g, 'net) iznn \<Rightarrow> nat list \<Rightarrow> 'net trial_state \<Rightarrow> nat" where
  "iterations lib [] s = 0"
| "iterations lib (j # js) s =
     Suc (case step lib j s of Inl e \<Rightarrow> 0 | Inr s' \<Rightarrow> iterations lib js s')"

subsection \<open>The decoder and the records of \<^verbatim>\<open>simulated\<close>\<close>

text \<open>The response before the clamp, as a function of the rounded distance of the two
  times.\<close>

definition raw_response :: "real \<Rightarrow> real" where
  "raw_response d = fl (fl (11 / 10) - fl (fl (1 / 10) * d))"

text \<open>The record that a trial appends to \<^verbatim>\<open>simulated\<close>, and the term it adds to the
  error: \<^verbatim>\<open>(response - outputData) ** 2\<close> with the response decoded from the trial's
  two first-spike times.\<close>

definition trial_record_of :: "int \<times> int \<Rightarrow> int \<Rightarrow> 'net trial_state \<Rightarrow> trial_record" where
  "trial_record_of inputData outputData s =
     (inputData, outputData, t0 s, t1 s, v0 s, v1 s, neuron_data s)"

definition squared_error :: "'net trial_state \<Rightarrow> int \<Rightarrow> real" where
  "squared_error s outputData =
     fl ((fl (compute_output (t0 s) (t1 s) - real_of_int outputData)) ^ 2)"

section \<open>Properties of the rounding\<close>

subsection \<open>Rounding to an integer\<close>

lemma rne_of_int: "rne (real_of_int n) = n"
  by (simp add: rne_def)

lemma rne_bounds: "\<lfloor>z\<rfloor> \<le> rne z" "rne z \<le> \<lfloor>z\<rfloor> + 1"
  by (simp_all add: rne_def Let_def)

lemma rne_mono: "x \<le> y \<Longrightarrow> rne x \<le> rne y"
proof -
  assume xy: "x \<le> y"
  then have f: "\<lfloor>x\<rfloor> \<le> \<lfloor>y\<rfloor>" by (rule floor_mono)
  show ?thesis
  proof (cases "\<lfloor>x\<rfloor> = \<lfloor>y\<rfloor>")
    case True
    then have "x - real_of_int \<lfloor>x\<rfloor> \<le> y - real_of_int \<lfloor>x\<rfloor>" using xy by simp
    then show ?thesis
      unfolding rne_def Let_def True[symmetric] by auto
  next
    case False
    then have "\<lfloor>x\<rfloor> + 1 \<le> \<lfloor>y\<rfloor>" using f by simp
    then show ?thesis
      using rne_bounds(2)[of x] rne_bounds(1)[of y] by linarith
  qed
qed

subsection \<open>The binade of a number\<close>

lemma ulp_pos: "0 < ulp x"
  by (simp add: ulp_def)

lemma ulp_abs: "ulp (- x) = ulp x" "ulp \<bar>x\<bar> = ulp x"
  by (simp_all add: ulp_def)

lemma binade:
  assumes "0 < x"
  shows "2 powr real_of_int \<lfloor>log 2 x\<rfloor> \<le> x" "x < 2 powr (real_of_int \<lfloor>log 2 x\<rfloor> + 1)"
  using floor_log_eq_powr_iff[of x 2 "\<lfloor>log 2 x\<rfloor>"] assms by simp_all

lemma ulp_binade:
  assumes "0 < x"
  shows "ulp x = 2 powr real_of_int \<lfloor>log 2 x\<rfloor> / 2 ^ 52"
proof -
  have "ulp x = 2 powr (real_of_int \<lfloor>log 2 x\<rfloor> - 52)"
    using assms by (simp add: ulp_def)
  also have "\<dots> = 2 powr real_of_int \<lfloor>log 2 x\<rfloor> / 2 powr 52"
    by (rule powr_diff)
  finally show ?thesis by simp
qed

lemma scaled_bounds:
  assumes "0 < x"
  shows "2 ^ 52 \<le> x / ulp x" "x / ulp x < 2 ^ 53"
proof -
  let ?p = "2 powr real_of_int \<lfloor>log 2 x\<rfloor> :: real"
  have p: "0 < ?p" by simp
  have u: "x / ulp x = x * 2 ^ 52 / ?p"
    by (simp add: ulp_binade[OF assms])
  have up: "2 powr (real_of_int \<lfloor>log 2 x\<rfloor> + 1) = 2 * ?p"
    by (simp add: powr_add)
  show "2 ^ 52 \<le> x / ulp x"
    unfolding u using binade(1)[OF assms] p by (simp add: le_divide_eq)
  show "x / ulp x < 2 ^ 53"
    unfolding u using binade(2)[OF assms] p unfolding up by (simp add: divide_less_eq)
qed

lemma rne_scaled:
  assumes "0 < x"
  shows "2 ^ 52 \<le> rne (x / ulp x)" "rne (x / ulp x) \<le> 2 ^ 53"
proof -
  have "rne (real_of_int (2 ^ 52)) \<le> rne (x / ulp x)"
    by (rule rne_mono) (use scaled_bounds(1)[OF assms] in simp)
  then show "2 ^ 52 \<le> rne (x / ulp x)" by (simp only: rne_of_int)
  have "rne (x / ulp x) \<le> rne (real_of_int (2 ^ 53))"
    by (rule rne_mono) (use scaled_bounds(2)[OF assms] in simp)
  then show "rne (x / ulp x) \<le> 2 ^ 53" by (simp only: rne_of_int)
qed

subsection \<open>The rounding is odd and monotone\<close>

lemma fl_pos_eq: "0 < x \<Longrightarrow> fl x = real_of_int (rne (x / ulp x)) * ulp x"
  by (simp add: fl_def)

lemma fl_0: "fl 0 = 0"
  by (simp add: fl_def)

lemma fl_minus: "fl (- x) = - fl x"
  by (simp add: fl_def ulp_abs sgn_minus)

lemma fl_binade:
  assumes "0 < x"
  shows "2 powr real_of_int \<lfloor>log 2 x\<rfloor> \<le> fl x" "fl x \<le> 2 powr (real_of_int \<lfloor>log 2 x\<rfloor> + 1)"
proof -
  let ?p = "2 powr real_of_int \<lfloor>log 2 x\<rfloor> :: real"
  have u: "ulp x = ?p / 2 ^ 52" by (rule ulp_binade[OF assms])
  have lo: "(2 ^ 52 :: real) \<le> real_of_int (rne (x / ulp x))"
    using rne_scaled(1)[OF assms] by (metis of_int_le_iff of_int_numeral of_int_power)
  have hi: "real_of_int (rne (x / ulp x)) \<le> (2 ^ 53 :: real)"
    using rne_scaled(2)[OF assms] by (metis of_int_le_iff of_int_numeral of_int_power)
  have "2 ^ 52 * ulp x \<le> real_of_int (rne (x / ulp x)) * ulp x"
    using lo ulp_pos[of x] by (simp only: mult_le_cancel_right_pos)
  then show "?p \<le> fl x"
    unfolding fl_pos_eq[OF assms] u by simp
  have "real_of_int (rne (x / ulp x)) * ulp x \<le> 2 ^ 53 * ulp x"
    using hi ulp_pos[of x] by (simp only: mult_le_cancel_right_pos)
  then show "fl x \<le> 2 powr (real_of_int \<lfloor>log 2 x\<rfloor> + 1)"
    unfolding fl_pos_eq[OF assms] u by (simp add: powr_add)
qed

lemma fl_pos: "0 < x \<Longrightarrow> 0 < fl x"
  using fl_binade(1)[of x] by (smt (verit) powr_gt_zero)

lemma fl_mono_pos:
  assumes x: "0 < x" and xy: "x \<le> y"
  shows "fl x \<le> fl y"
proof -
  have y: "0 < y" using x xy by simp
  have k: "\<lfloor>log 2 x\<rfloor> \<le> \<lfloor>log 2 y\<rfloor>"
    using x xy by (intro floor_mono log_mono) simp_all
  show ?thesis
  proof (cases "\<lfloor>log 2 x\<rfloor> = \<lfloor>log 2 y\<rfloor>")
    case True
    then have u: "ulp x = ulp y" using x y by (simp add: ulp_def)
    have "x / ulp y \<le> y / ulp y"
      using xy ulp_pos[of y] by (simp add: divide_right_mono)
    then have "rne (x / ulp y) \<le> rne (y / ulp y)" by (rule rne_mono)
    then have "real_of_int (rne (x / ulp y)) * ulp y \<le> real_of_int (rne (y / ulp y)) * ulp y"
      using ulp_pos[of y] by (simp only: mult_le_cancel_right_pos of_int_le_iff)
    then show ?thesis
      unfolding fl_pos_eq[OF x] fl_pos_eq[OF y] u .
  next
    case False
    then have "real_of_int \<lfloor>log 2 x\<rfloor> + 1 \<le> real_of_int \<lfloor>log 2 y\<rfloor>"
      using k by linarith
    then have "(2::real) powr (real_of_int \<lfloor>log 2 x\<rfloor> + 1) \<le> 2 powr real_of_int \<lfloor>log 2 y\<rfloor>"
      by simp
    then show ?thesis
      using fl_binade(2)[OF x] fl_binade(1)[OF y] by linarith
  qed
qed

lemma fl_mono: "x \<le> y \<Longrightarrow> fl x \<le> fl y"
proof -
  assume xy: "x \<le> y"
  consider "0 < x" | "x \<le> 0" "0 \<le> y" | "y < 0" using xy by linarith
  then show ?thesis
  proof cases
    case 1
    then show ?thesis using xy by (rule fl_mono_pos)
  next
    case 2
    have "fl x \<le> 0"
    proof (cases "x = 0")
      case True then show ?thesis by (simp add: fl_0)
    next
      case False
      then have "0 < - x" using 2 by simp
      then have "0 < fl (- x)" by (rule fl_pos)
      then show ?thesis by (simp add: fl_minus)
    qed
    moreover have "0 \<le> fl y"
    proof (cases "y = 0")
      case True then show ?thesis by (simp add: fl_0)
    next
      case False
      then have "0 < y" using 2 by simp
      then show ?thesis using fl_pos[of y] by simp
    qed
    ultimately show ?thesis by linarith
  next
    case 3
    then have "0 < - y" "- y \<le> - x" using xy by simp_all
    then have "fl (- y) \<le> fl (- x)" by (rule fl_mono_pos)
    then show ?thesis by (simp add: fl_minus)
  qed
qed

lemma fl_abs: "\<bar>fl x\<bar> = fl \<bar>x\<bar>"
proof (cases "0 \<le> x")
  case True
  then have "0 \<le> fl x" using fl_mono[of 0 x] by (simp add: fl_0)
  then show ?thesis using True by simp
next
  case False
  then have "fl x \<le> 0" using fl_mono[of x 0] by (simp add: fl_0)
  then show ?thesis using False by (simp add: fl_minus abs_if)
qed

subsection \<open>Computing a rounding\<close>

text \<open>A number that \<open>n\<close> doublings bring between \<open>2\<^sup>5\<^sup>2\<close> and \<open>2\<^sup>5\<^sup>3\<close> is rounded there, to
  an integer.\<close>

lemma fl_eval:
  assumes lo: "2 ^ 52 \<le> x * 2 ^ n" and hi: "x * 2 ^ n < 2 ^ 53"
  shows "fl x = real_of_int (rne (x * 2 ^ n)) / 2 ^ n"
proof -
  have x: "0 < x"
  proof (rule ccontr)
    assume "\<not> 0 < x"
    then have "x * 2 ^ n \<le> 0" by (simp add: mult_le_0_iff)
    then show False using lo by (smt (verit) zero_less_power)
  qed
  have p: "(2::real) powr real_of_int (52 - int n) = 2 ^ 52 / 2 ^ n"
  proof -
    have "(2::real) powr real_of_int (52 - int n) = 2 powr (52 - real n)" by simp
    also have "\<dots> = 2 powr 52 / 2 powr real n" by (rule powr_diff)
    also have "\<dots> = 2 ^ 52 / 2 ^ n" by (simp add: powr_realpow)
    finally show ?thesis .
  qed
  have "\<lfloor>log 2 x\<rfloor> = 52 - int n"
  proof -
    have a: "2 powr real_of_int (52 - int n) \<le> x"
      unfolding p using lo by (simp add: divide_le_eq)
    have "(2::real) powr (real_of_int (52 - int n) + 1) = 2 powr real_of_int (52 - int n) * 2 powr 1"
      by (rule powr_add)
    then have "2 powr real_of_int (52 - int n + 1) = 2 * (2 powr real_of_int (52 - int n) :: real)"
      by simp
    then have b: "x < 2 powr real_of_int (52 - int n + 1)"
      unfolding p using hi by (simp add: less_divide_eq)
    show ?thesis
      using floor_log_eq_powr_iff[of x 2 "52 - int n"] x a b by simp
  qed
  then have "ulp x = 2 powr (- real n)"
    using x by (simp add: ulp_def)
  then have u: "ulp x = 1 / 2 ^ n"
    by (simp add: powr_minus powr_realpow inverse_eq_divide)
  show ?thesis
    unfolding fl_pos_eq[OF x] u by simp
qed

lemma fl_exact:
  assumes "2 ^ 52 \<le> x * 2 ^ n" and "x * 2 ^ n < 2 ^ 53" and "x * 2 ^ n = real_of_int m"
  shows "fl x = x"
proof -
  have "fl x = real_of_int (rne (x * 2 ^ n)) / 2 ^ n"
    using assms(1,2) by (rule fl_eval)
  also have "\<dots> = x * 2 ^ n / 2 ^ n"
    by (simp only: assms(3) rne_of_int)
  finally show ?thesis by simp
qed

lemma fl_ints:
  "fl 1 = 1" "fl 2 = 2" "fl 4 = 4" "fl 5 = 5" "fl 8 = 8" "fl 9 = 9" "fl 10 = 10" "fl 11 = 11"
  using fl_exact[of 1 52 "2 ^ 52"] fl_exact[of 2 51 "2 ^ 52"] fl_exact[of 4 50 "2 ^ 52"]
    fl_exact[of 5 50 "5 * 2 ^ 50"] fl_exact[of 8 49 "2 ^ 52"] fl_exact[of 9 49 "9 * 2 ^ 49"]
    fl_exact[of 10 49 "10 * 2 ^ 49"] fl_exact[of 11 49 "11 * 2 ^ 49"]
  by simp_all

lemma fl_tenth: "fl (1 / 10) = 3602879701896397 / 2 ^ 55"
  using fl_eval[of "1 / 10" 56] by (simp add: rne_def)

lemma fl_eleven_tenths: "fl (11 / 10) = 4953959590107546 / 2 ^ 52"
  using fl_eval[of "11 / 10" 52] by (simp add: rne_def)

lemma fl_six_tenths: "fl (6 / 10) = 5404319552844595 / 2 ^ 53"
  using fl_eval[of "6 / 10" 53] by (simp add: rne_def)

text \<open>The time \<^verbatim>\<open>t = dt * j\<close> of a step of the loop is computed without rounding error.\<close>

lemma fl_quarters:
  assumes "j < 256"
  shows "fl (real j / 4) = real j / 4"
proof -
  consider "j = 0" | "1 \<le> j" "j < 2" | "2 \<le> j" "j < 4" | "4 \<le> j" "j < 8" | "8 \<le> j" "j < 16"
    | "16 \<le> j" "j < 32" | "32 \<le> j" "j < 64" | "64 \<le> j" "j < 128" | "128 \<le> j" "j < 256"
    using assms by linarith
  then show ?thesis
  proof cases
    case 1
    then show ?thesis by (simp add: fl_0)
  next
    case 2
    then show ?thesis using fl_exact[of "real j / 4" 54 "int j * 2 ^ 52"] by simp
  next
    case 3
    then show ?thesis using fl_exact[of "real j / 4" 53 "int j * 2 ^ 51"] by simp
  next
    case 4
    then show ?thesis using fl_exact[of "real j / 4" 52 "int j * 2 ^ 50"] by simp
  next
    case 5
    then show ?thesis using fl_exact[of "real j / 4" 51 "int j * 2 ^ 49"] by simp
  next
    case 6
    then show ?thesis using fl_exact[of "real j / 4" 50 "int j * 2 ^ 48"] by simp
  next
    case 7
    then show ?thesis using fl_exact[of "real j / 4" 49 "int j * 2 ^ 47"] by simp
  next
    case 8
    then show ?thesis using fl_exact[of "real j / 4" 48 "int j * 2 ^ 46"] by simp
  next
    case 9
    then show ?thesis using fl_exact[of "real j / 4" 47 "int j * 2 ^ 45"] by simp
  qed
qed

lemma step_time_exact: "j < 200 \<Longrightarrow> fl (fl (25 / 100) * real j) = dt * real j"
proof -
  assume j: "j < 200"
  have q: "fl (25 / 100) = 1 / 4"
    using fl_exact[of "25 / 100" 54 "2 ^ 52"] by simp
  show ?thesis
    unfolding q dt_def using fl_quarters[of j] j by simp
qed

section \<open>Properties of the decoder\<close>

lemma raw_response_eq:
  "raw_response d = fl (4953959590107546 / 2 ^ 52 - fl (3602879701896397 / 2 ^ 55 * d))"
  by (simp only: raw_response_def fl_tenth fl_eleven_tenths)

lemma raw_response_0: "raw_response 0 = 4953959590107546 / 2 ^ 52"
  unfolding raw_response_eq
  using fl_exact[of "4953959590107546 / 2 ^ 52" 52 4953959590107546]
  by (simp add: fl_0)

lemma raw_response_1: "raw_response 1 = 1"
proof -
  have a: "fl (3602879701896397 / 2 ^ 55 * 1) = 3602879701896397 / 2 ^ 55"
    using fl_exact[of "3602879701896397 / 2 ^ 55" 56 7205759403792794] by simp
  have b: "fl (4953959590107546 / 2 ^ 52 - 3602879701896397 / 2 ^ 55) = 1"
    using fl_eval[of "4953959590107546 / 2 ^ 52 - 3602879701896397 / 2 ^ 55" 52]
    by (simp add: rne_def)
  show ?thesis unfolding raw_response_eq a b ..
qed

lemma raw_response_5: "raw_response 5 = 5404319552844596 / 2 ^ 53"
proof -
  have a: "fl (3602879701896397 / 2 ^ 55 * 5) = 1 / 2"
    using fl_eval[of "3602879701896397 / 2 ^ 55 * 5" 53] by (simp add: rne_def)
  have b: "fl (4953959590107546 / 2 ^ 52 - 1 / 2) = 5404319552844596 / 2 ^ 53"
    using fl_eval[of "4953959590107546 / 2 ^ 52 - 1 / 2" 53] by (simp add: rne_def)
  show ?thesis unfolding raw_response_eq a b ..
qed

lemma raw_response_11: "raw_response 11 = 0"
proof -
  have a: "fl (3602879701896397 / 2 ^ 55 * 11) = 4953959590107546 / 2 ^ 52"
    using fl_eval[of "3602879701896397 / 2 ^ 55 * 11" 52] by (simp add: rne_def)
  show ?thesis unfolding raw_response_eq a by (simp add: fl_0)
qed

lemma raw_response_antimono: "d \<le> d' \<Longrightarrow> raw_response d' \<le> raw_response d"
proof -
  assume "d \<le> d'"
  then have "3602879701896397 / 2 ^ 55 * d \<le> 3602879701896397 / 2 ^ 55 * d'"
    by simp
  then have "fl (3602879701896397 / 2 ^ 55 * d) \<le> fl (3602879701896397 / 2 ^ 55 * d')"
    by (rule fl_mono)
  then have "4953959590107546 / 2 ^ 52 - fl (3602879701896397 / 2 ^ 55 * d')
      \<le> 4953959590107546 / 2 ^ 52 - fl (3602879701896397 / 2 ^ 55 * d)"
    by simp
  then show ?thesis
    unfolding raw_response_eq by (rule fl_mono)
qed

lemma compute_output_Some:
  "compute_output (Some a) (Some b) = max 0 (min 1 (raw_response (fl \<bar>a - b\<bar>)))"
  by (simp add: compute_output_def raw_response_def fl_abs)

lemma decode_plateau: "\<bar>a - b\<bar> \<le> 1 \<Longrightarrow> compute_output (Some a) (Some b) = 1"
proof -
  assume "\<bar>a - b\<bar> \<le> 1"
  then have "fl \<bar>a - b\<bar> \<le> 1" using fl_mono[of "\<bar>a - b\<bar>" 1] by (simp add: fl_ints)
  then have "1 \<le> raw_response (fl \<bar>a - b\<bar>)"
    using raw_response_antimono[of "fl \<bar>a - b\<bar>" 1] by (simp add: raw_response_1)
  then show ?thesis by (simp add: compute_output_Some)
qed

lemma decode_far: "11 \<le> \<bar>a - b\<bar> \<Longrightarrow> compute_output (Some a) (Some b) = 0"
proof -
  assume "11 \<le> \<bar>a - b\<bar>"
  then have "11 \<le> fl \<bar>a - b\<bar>" using fl_mono[of 11 "\<bar>a - b\<bar>"] by (simp add: fl_ints)
  then have "raw_response (fl \<bar>a - b\<bar>) \<le> 0"
    using raw_response_antimono[of 11 "fl \<bar>a - b\<bar>"] by (simp add: raw_response_11)
  then show ?thesis by (simp add: compute_output_Some)
qed

lemma decode_five: "\<bar>a - b\<bar> = 5 \<Longrightarrow> compute_output (Some a) (Some b) = 5404319552844596 / 2 ^ 53"
  by (simp add: compute_output_Some fl_ints raw_response_5)

lemma decode_antimono:
  "\<bar>a - b\<bar> \<le> \<bar>a' - b'\<bar> \<Longrightarrow> compute_output (Some a') (Some b') \<le> compute_output (Some a) (Some b)"
proof -
  assume "\<bar>a - b\<bar> \<le> \<bar>a' - b'\<bar>"
  then have "fl \<bar>a - b\<bar> \<le> fl \<bar>a' - b'\<bar>" by (rule fl_mono)
  then have "raw_response (fl \<bar>a' - b'\<bar>) \<le> raw_response (fl \<bar>a - b\<bar>)"
    by (rule raw_response_antimono)
  then show ?thesis by (simp add: compute_output_Some min_def max_def)
qed

lemma decode_at_8: "compute_output (Some 10) (Some 2) = 1351079888211149 / 2 ^ 52"
proof -
  have a: "fl (3602879701896397 / 2 ^ 55 * 8) = 3602879701896397 / 2 ^ 52"
    using fl_exact[of "3602879701896397 / 2 ^ 55 * 8" 53 7205759403792794] by simp
  have b: "fl (4953959590107546 / 2 ^ 52 - 3602879701896397 / 2 ^ 52) = 1351079888211149 / 2 ^ 52"
    using fl_exact[of "4953959590107546 / 2 ^ 52 - 3602879701896397 / 2 ^ 52" 54 5404319552844596]
    by simp
  have "raw_response 8 = 1351079888211149 / 2 ^ 52"
    unfolding raw_response_eq a b ..
  then show ?thesis by (simp add: compute_output_Some fl_ints)
qed

lemma decode_at_2: "compute_output (Some 1) (Some 3) = 4053239664633447 / 2 ^ 52"
proof -
  have a: "fl (3602879701896397 / 2 ^ 55 * 2) = 3602879701896397 / 2 ^ 54"
    using fl_exact[of "3602879701896397 / 2 ^ 55 * 2" 55 7205759403792794] by simp
  have b: "fl (4953959590107546 / 2 ^ 52 - 3602879701896397 / 2 ^ 54) = 4053239664633447 / 2 ^ 52"
    using fl_eval[of "4953959590107546 / 2 ^ 52 - 3602879701896397 / 2 ^ 54" 53]
    by (simp add: rne_def)
  have "raw_response 2 = 4053239664633447 / 2 ^ 52"
    unfolding raw_response_eq a b ..
  then show ?thesis by (simp add: compute_output_Some fl_ints)
qed

text \<open>
  Claim C1, as the code has it. For two first-spike times that are both present, the
  decoded response is the clamp to the interval from 0 to 1 of \<open>1.1 - 0.1 * |t0 - t1|\<close>
  as binary64 arithmetic evaluates it. The response is 1 when the times are equal and 0
  when they are at least 11 apart. When they are exactly 5 apart it is
  \<open>5404319552844596 / 2\<^sup>5\<^sup>3\<close>, which Python prints as 0.6000000000000001: the float next
  above the float 0.6, less than \<open>2\<^sup>-\<^sup>5\<^sup>3\<close> away from 6/10.
\<close>

theorem compute_output_clamp:
  "compute_output (Some a) (Some b)
     = clamp (fl (fl (11 / 10) - fl (fl (1 / 10) * \<bar>fl (a - b)\<bar>))) 0 1
   \<and> (\<bar>a - b\<bar> = 0 \<longrightarrow> compute_output (Some a) (Some b) = 1)
   \<and> (11 \<le> \<bar>a - b\<bar> \<longrightarrow> compute_output (Some a) (Some b) = 0)
   \<and> (\<bar>a - b\<bar> = 5 \<longrightarrow>
        compute_output (Some a) (Some b) = 5404319552844596 / 2 ^ 53
      \<and> compute_output (Some a) (Some b) = fl (6 / 10) + 1 / 2 ^ 53
      \<and> \<bar>compute_output (Some a) (Some b) - 6 / 10\<bar> < 1 / 2 ^ 53)"
proof -
  have eq: "compute_output (Some a) (Some b)
      = clamp (fl (fl (11 / 10) - fl (fl (1 / 10) * \<bar>fl (a - b)\<bar>))) 0 1"
    by (simp add: compute_output_def clamp_def min_def max_def Let_def)
  have same: "compute_output (Some a) (Some b) = 1" if "\<bar>a - b\<bar> = 0"
    using that decode_plateau[of a b] by simp
  have far: "compute_output (Some a) (Some b) = 0" if "11 \<le> \<bar>a - b\<bar>"
    using that by (rule decode_far)
  have five: "compute_output (Some a) (Some b) = 5404319552844596 / 2 ^ 53
      \<and> compute_output (Some a) (Some b) = fl (6 / 10) + 1 / 2 ^ 53
      \<and> \<bar>compute_output (Some a) (Some b) - 6 / 10\<bar> < 1 / 2 ^ 53" if "\<bar>a - b\<bar> = 5"
    unfolding decode_five[OF that] fl_six_tenths by simp
  show ?thesis
    using eq same far five by (intro conjI impI) simp_all
qed

theorem compute_output_clamp_witness:
  "compute_output (Some 3) (Some 3) = 1
   \<and> compute_output (Some 2) (Some 14) = 0
   \<and> compute_output (Some 12) (Some 7) = 5404319552844596 / 2 ^ 53
   \<and> compute_output (Some 4) (Some 6) = clamp (fl (fl (11 / 10) - fl (fl (1 / 10) * 2))) 0 1"
proof -
  have a: "compute_output (Some 3) (Some 3) = 1"
    using compute_output_clamp[of 3 3] by simp
  have b: "compute_output (Some 2) (Some 14) = 0"
    using compute_output_clamp[of 2 14] by simp
  have c: "compute_output (Some 12) (Some 7) = 5404319552844596 / 2 ^ 53"
    using compute_output_clamp[of 12 7] by simp
  have "fl (4 - 6) = - 2"
    using fl_minus[of 2] by (simp add: fl_ints)
  then have d: "compute_output (Some 4) (Some 6)
      = clamp (fl (fl (11 / 10) - fl (fl (1 / 10) * 2))) 0 1"
    using compute_output_clamp[of 4 6] by simp
  show ?thesis
    by (intro conjI) (rule a b c d)+
qed

text \<open>
  Claim C1 as it is stated fails in its last clause: for the times 12 and 7, which are 5
  apart, the response is not 6/10, and it is not the float 0.6 either.
\<close>

theorem compute_output_five_apart:
  "compute_output (Some 12) (Some 7) = 5404319552844596 / 2 ^ 53
   \<and> compute_output (Some 12) (Some 7) \<noteq> 6 / 10
   \<and> compute_output (Some 12) (Some 7) \<noteq> fl (6 / 10)"
proof -
  have v: "compute_output (Some 12) (Some 7) = 5404319552844596 / 2 ^ 53"
    by (rule decode_five) simp
  show ?thesis
    unfolding v fl_six_tenths by simp
qed

text \<open>
  Claim C2. When either first-spike time is missing, the decoded response is exactly
  \<open>-1\<close>, whatever the other argument is.
\<close>

theorem compute_output_missing:
  "a = None \<or> b = None \<Longrightarrow> compute_output a b = - 1"
  by (simp add: compute_output_def)

theorem compute_output_missing_witness:
  "compute_output None (Some 7) = - 1 \<and> compute_output (Some 0) None = - 1
   \<and> compute_output None None = - 1"
  using compute_output_missing [of None "Some 7"] compute_output_missing [of "Some 0" None]
    compute_output_missing [of None None]
  by simp

text \<open>
  Claim C5. On times that are both present the decoder is non-increasing in the
  distance \<open>|t0 - t1|\<close>, and its value lies between 0 and 1.
\<close>

theorem compute_output_antimono_bounded:
  "(\<bar>a - b\<bar> \<le> \<bar>a' - b'\<bar> \<longrightarrow>
      compute_output (Some a') (Some b') \<le> compute_output (Some a) (Some b))
   \<and> 0 \<le> compute_output (Some a) (Some b) \<and> compute_output (Some a) (Some b) \<le> 1"
proof -
  have "compute_output (Some a') (Some b') \<le> compute_output (Some a) (Some b)"
    if "\<bar>a - b\<bar> \<le> \<bar>a' - b'\<bar>"
    using that by (rule decode_antimono)
  moreover have "0 \<le> compute_output (Some a) (Some b)" "compute_output (Some a) (Some b) \<le> 1"
    by (simp_all add: compute_output_Some)
  ultimately show ?thesis by simp
qed

theorem compute_output_antimono_bounded_witness:
  "\<bar>(1::real) - 3\<bar> \<le> \<bar>10 - 2\<bar>
   \<and> compute_output (Some 10) (Some 2) \<le> compute_output (Some 1) (Some 3)
   \<and> compute_output (Some 10) (Some 2) = 1351079888211149 / 2 ^ 52
   \<and> compute_output (Some 1) (Some 3) = 4053239664633447 / 2 ^ 52"
proof -
  have a: "\<bar>(1::real) - 3\<bar> \<le> \<bar>10 - 2\<bar>" by simp
  have b: "compute_output (Some 10) (Some 2) \<le> compute_output (Some 1) (Some 3)"
    using compute_output_antimono_bounded [of 1 3 10 2] a by simp
  show ?thesis
    by (intro conjI) (rule a b decode_at_8 decode_at_2)+
qed

text \<open>
  Claim C9. The response is exactly 1 on the whole plateau \<open>|t0 - t1| \<le> 1\<close>, not only
  for equal times.
\<close>

theorem compute_output_plateau:
  "\<bar>a - b\<bar> \<le> 1 \<Longrightarrow> compute_output (Some a) (Some b) = 1"
  by (rule decode_plateau)

theorem compute_output_plateau_witness:
  "\<bar>(5::real) - 23 / 4\<bar> \<le> 1 \<and> (5::real) \<noteq> 23 / 4
   \<and> compute_output (Some 5) (Some (23 / 4)) = 1"
  using compute_output_plateau [of 5 "23 / 4"]
  by simp

section \<open>Properties of the step loop\<close>

subsection \<open>Python lists, dicts and ranges\<close>

lemma num_steps_200: "num_steps = 200"
  by (simp add: num_steps_def py_int_def max_time_def dt_def)

lemma py_range_num_steps: "py_range num_steps = [0..<200]"
  by (simp add: py_range_def num_steps_200)

lemma py_index_nonneg:
  "0 \<le> k \<Longrightarrow> py_index xs k = (if k < int (length xs) then Inr (xs ! nat k) else Inl IndexError)"
  by (simp add: py_index_def Let_def)

lemma py_index_minus2:
  "py_index xs (- 2) = (if 2 \<le> length xs then Inr (xs ! (length xs - 2)) else Inl IndexError)"
  by (auto simp: py_index_def Let_def nat_diff_distrib' nat_add_distrib)

lemma find_append_list:
  "find P (xs @ ys) = (case find P xs of None \<Rightarrow> find P ys | Some x \<Rightarrow> Some x)"
  by (induction xs) simp_all

lemma find_upt_first:
  "j < m \<Longrightarrow> P j \<Longrightarrow> \<forall>i<j. \<not> P i \<Longrightarrow> find P [0..<m] = Some j"
proof (induction m)
  case 0
  then show ?case by simp
next
  case (Suc m)
  show ?case
  proof (cases "j = m")
    case True
    then have "find P [0..<m] = None"
      using Suc.prems(3) by (simp add: find_None_iff)
    then show ?thesis using True Suc.prems(2) by (simp add: find_append_list)
  next
    case False
    then have "find P [0..<m] = Some j" using Suc by simp
    then show ?thesis by (simp add: find_append_list)
  qed
qed

lemma find_upt_none: "\<forall>i<m. \<not> P i \<Longrightarrow> find P [0..<m] = None"
  by (simp add: find_None_iff)

lemma steps_append:
  "steps lib (xs @ ys) s = (case steps lib xs s of Inl e \<Rightarrow> Inl e | Inr s' \<Rightarrow> steps lib ys s')"
  by (induction xs arbitrary: s) (auto split: sum.splits)

lemma steps_upto_Suc:
  "steps lib [0..<Suc m] s =
     (case steps lib [0..<m] s of Inl e \<Rightarrow> Inl e | Inr s' \<Rightarrow> step lib m s')"
  by (simp add: steps_append split: sum.splits)

lemma init_data_apply:
  "init_data items nd i = (if i \<in> fst ` set items then Some [] else nd i)"
  by (induction items arbitrary: nd) force+

lemma append_samples_ok:
  "distinct (map fst items) \<Longrightarrow> \<forall>i \<in> fst ` set items. nd i \<noteq> None \<Longrightarrow>
   append_samples items t nd =
     Inr (\<lambda>i. case map_of items i of None \<Rightarrow> nd i | Some v \<Rightarrow> Some (the (nd i) @ [(t, v)]))"
proof (induction items t nd rule: append_samples.induct)
  case (1 t nd)
  then show ?case by simp
next
  case (2 i v items t nd)
  from "2.prems" obtain xs where xs: "nd i = Some xs" by auto
  have notin: "i \<notin> fst ` set items" using "2.prems"(1) by auto
  have d: "distinct (map fst items)" using "2.prems"(1) by simp
  have pres: "\<forall>k \<in> fst ` set items. (nd(i \<mapsto> xs @ [(t, v)])) k \<noteq> None"
    using "2.prems"(2) by auto
  have gi: "py_getitem nd i = Inr xs" by (simp add: py_getitem_def xs)
  have none: "map_of items i = None" using notin by (simp add: map_of_eq_None_iff)
  have "append_samples ((i, v) # items) t nd = append_samples items t (nd(i \<mapsto> xs @ [(t, v)]))"
    by (simp add: gi)
  also have "\<dots> = Inr (\<lambda>k. case map_of items k of None \<Rightarrow> (nd(i \<mapsto> xs @ [(t, v)])) k
                 | Some w \<Rightarrow> Some (the ((nd(i \<mapsto> xs @ [(t, v)])) k) @ [(t, w)]))"
    by (rule "2.IH"[OF gi d pres])
  also have "(\<lambda>k. case map_of items k of None \<Rightarrow> (nd(i \<mapsto> xs @ [(t, v)])) k
                 | Some w \<Rightarrow> Some (the ((nd(i \<mapsto> xs @ [(t, v)])) k) @ [(t, w)]))
      = (\<lambda>k. case map_of ((i, v) # items) k of None \<Rightarrow> nd k
                 | Some w \<Rightarrow> Some (the (nd k) @ [(t, w)]))"
    by (rule ext) (simp add: xs none split: option.splits)
  finally show ?case .
qed

subsection \<open>A library that keeps its neuron ids\<close>

lemma wf_distinct: "wf_lib lib \<Longrightarrow> distinct (map fst (neurons lib n))"
  by (simp add: wf_lib_def)

lemma wf_reset: "wf_lib lib \<Longrightarrow> map fst (neurons lib (reset lib n)) = map fst (neurons lib n)"
  by (simp add: wf_lib_def)

lemma wf_set_inputs:
  "wf_lib lib \<Longrightarrow> map fst (neurons lib (set_inputs lib n x)) = map fst (neurons lib n)"
  unfolding wf_lib_def by blast

lemma wf_advance:
  "wf_lib lib \<Longrightarrow> map fst (neurons lib (snd (advance lib n d))) = map fst (neurons lib n)"
  by (simp add: wf_lib_def)

lemma wf_outputs: "wf_lib lib \<Longrightarrow> set (outputs lib n) \<subseteq> set (map fst (neurons lib n))"
  unfolding wf_lib_def by blast

lemma net_at_0: "net_at lib n 0 = n"
  by (simp add: net_at_def)

lemma net_at_Suc: "net_at lib n (Suc k) = snd (advance lib (net_at lib n k) dt)"
  by (simp add: net_at_def)

lemma net_at_Suc_front: "net_at lib n (Suc k) = net_at lib (snd (advance lib n dt)) k"
  by (simp add: net_at_def funpow_Suc_right del: funpow.simps)

lemma advance_net_at:
  "advance lib (net_at lib n m) dt = (output_at lib n m, net_at lib n (Suc m))"
  by (simp add: output_at_def net_at_Suc)

lemma wf_ids_net_at:
  "wf_lib lib \<Longrightarrow> map fst (neurons lib (net_at lib n k)) = map fst (neurons lib n)"
  by (induction k) (simp_all add: net_at_0 net_at_Suc wf_advance)

lemma wf_ids_start:
  "wf_lib lib \<Longrightarrow>
   map fst (neurons lib (net (trial_start lib net0 inp))) = map fst (neurons lib net0)"
  by (simp add: trial_start_def wf_set_inputs wf_reset)

lemma start_data:
  "neuron_data (trial_start lib net0 inp) = traces lib n (map fst (neurons lib net0)) 0"
  by (rule ext) (simp add: trial_start_def traces_def init_data_apply)

lemma start_slots:
  "t0 (trial_start lib net0 inp) = None" "t1 (trial_start lib net0 inp) = None"
  "v0 (trial_start lib net0 inp) = None" "v1 (trial_start lib net0 inp) = None"
  by (simp_all add: trial_start_def)

subsection \<open>The state of a trial after \<open>m\<close> steps\<close>

text \<open>The samples of step \<open>m\<close> are appended to the traces of the steps before it.\<close>

lemma append_samples_traces:
  assumes wf: "wf_lib lib" and ids: "ids = map fst (neurons lib n)"
  shows "append_samples (neurons lib (net_at lib n (Suc m))) (dt * real m) (traces lib n ids m)
           = Inr (traces lib n ids (Suc m))"
proof -
  let ?items = "neurons lib (net_at lib n (Suc m))"
  have keys: "map fst ?items = ids"
    using wf ids by (simp add: wf_ids_net_at)
  have d: "distinct (map fst ?items)"
    using wf by (rule wf_distinct)
  have present: "\<forall>i \<in> fst ` set ?items. traces lib n ids m i \<noteq> None"
    using keys by (force simp: traces_def)
  have dom: "map_of ?items i = None \<longleftrightarrow> i \<notin> set ids" for i
    using keys by (metis map_of_eq_None_iff set_map)
  have "(\<lambda>i. case map_of ?items i of None \<Rightarrow> traces lib n ids m i
              | Some v \<Rightarrow> Some (the (traces lib n ids m i) @ [(dt * real m, v)]))
        = traces lib n ids (Suc m)"
  proof (rule ext)
    fix i
    show "(case map_of ?items i of None \<Rightarrow> traces lib n ids m i
              | Some v \<Rightarrow> Some (the (traces lib n ids m i) @ [(dt * real m, v)]))
        = traces lib n ids (Suc m) i"
    proof (cases "map_of ?items i")
      case None
      then show ?thesis using dom[of i] by (simp add: traces_def)
    next
      case (Some v)
      then have "i \<in> set ids" using dom[of i] by auto
      then show ?thesis using Some by (simp add: traces_def sample_at_def)
    qed
  qed
  then show ?thesis
    using append_samples_ok[OF d present, of "dt * real m"] by simp
qed

lemma fst_lookback: "fst (lookback lib n k j) \<noteq> None"
  by (simp add: lookback_def Let_def split: prod.splits)

lemma slot_after_0: "slot_after lib n k 0 = (None, None)"
  by (simp add: slot_after_def)

lemma slot_after_None:
  "fst (slot_after lib n k m) = None \<longleftrightarrow> find (fired_at lib n k) [0..<m] = None"
  by (simp add: slot_after_def fst_lookback split: option.splits)

lemma slot_after_Suc:
  "slot_after lib n k (Suc m) =
     (if fst (slot_after lib n k m) \<noteq> None then slot_after lib n k m
      else if fired_at lib n k m then lookback lib n k m else (None, None))"
  by (simp add: slot_after_def find_append_list fst_lookback split: option.splits)

lemma snd_slot_after_None:
  "fst (slot_after lib n k m) = None \<Longrightarrow> snd (slot_after lib n k m) = None"
  by (simp add: slot_after_def fst_lookback split: option.splits)

lemma first_spike_traces:
  assumes wf: "wf_lib lib" and ids: "ids = map fst (neurons lib n)"
  shows "first_spike lib (net_at lib n (Suc m)) (traces lib n ids (Suc m)) out (int k) (t, v) =
     (if t \<noteq> None then Inr (t, v)
      else if \<not> k < length out then Inl IndexError
      else if \<not> 0 < out ! k then Inr (t, v)
      else if \<not> k < length (outputs lib (net_at lib n (Suc m))) then Inl IndexError
      else if m = 0 then Inl IndexError
      else Inr (lookback lib n k m))"
proof -
  let ?n' = "net_at lib n (Suc m)"
  have key: "outputs lib ?n' ! k \<in> set ids" if "k < length (outputs lib ?n')"
  proof -
    have "outputs lib ?n' ! k \<in> set (outputs lib ?n')" using that by simp
    then have "outputs lib ?n' ! k \<in> set (map fst (neurons lib ?n'))"
      using wf_outputs[OF wf, of ?n'] by blast
    then show ?thesis using wf ids by (simp add: wf_ids_net_at)
  qed
  have get: "py_getitem (traces lib n ids (Suc m)) (outputs lib ?n' ! k)
      = Inr (map (sample_at lib n (outputs lib ?n' ! k)) [0..<Suc m])"
    if "k < length (outputs lib ?n')"
    using key[OF that] by (simp add: py_getitem_def traces_def)
  have minus2: "py_index (map (sample_at lib n i) [0..<Suc m]) (- 2)
      = (if m = 0 then Inl IndexError else Inr (sample_at lib n i (m - 1)))" for i
    by (cases m) (simp_all add: py_index_minus2 nth_append del: upt_Suc)
  show ?thesis
    by (simp add: first_spike_def py_index_nonneg get minus2 lookback_def Let_def
        split: prod.splits del: upt_Suc)
qed

lemma first_spike_slot_after:
  assumes wf: "wf_lib lib" and ids: "ids = map fst (neurons lib n)"
  shows "first_spike lib (net_at lib n (Suc m)) (traces lib n ids (Suc m))
           (output_at lib n m) (int k) (slot_after lib n k m) =
     (if raises lib n k m then Inl IndexError else Inr (slot_after lib n k (Suc m)))"
proof -
  obtain a b where p: "slot_after lib n k m = (a, b)"
    by (cases "slot_after lib n k m")
  have b: "a = None \<Longrightarrow> b = None"
    using snd_slot_after_None[of lib n k m] p by simp
  show ?thesis
    unfolding p first_spike_traces[OF wf ids]
    using b by (auto simp: raises_def slot_after_Suc fired_at_def p)
qed

lemma trial_start_state_after:
  "trial_start lib net0 inp =
     state_after lib (set_inputs lib (reset lib net0) inp) (map fst (neurons lib net0)) 0"
  using start_data[of lib net0 inp "set_inputs lib (reset lib net0) inp"]
  by (simp add: trial_start_def state_after_def slot_after_0 net_at_0)

lemma step_state_after:
  assumes wf: "wf_lib lib" and ids: "ids = map fst (neurons lib n)"
  shows "step lib m (state_after lib n ids m) =
     (if raises lib n 0 m \<or> raises lib n 1 m then Inl IndexError
      else Inr (state_after lib n ids (Suc m)))"
  using first_spike_slot_after[OF wf ids, of m 0] first_spike_slot_after[OF wf ids, of m 1]
  by (simp add: step_def state_after_def advance_net_at append_samples_traces[OF wf ids]
      split: prod.splits)

lemma steps_state_after:
  assumes wf: "wf_lib lib" and ids: "ids = map fst (neurons lib n)"
  shows "steps lib [0..<m] (state_after lib n ids 0) =
     (if \<exists>j<m. raises lib n 0 j \<or> raises lib n 1 j then Inl IndexError
      else Inr (state_after lib n ids m))"
proof (induction m)
  case 0
  show ?case by simp
next
  case (Suc m)
  show ?case
    unfolding steps_upto_Suc Suc.IH
    by (auto simp: step_state_after[OF wf ids] less_Suc_eq)
qed

lemma run_trial_wf:
  assumes wf: "wf_lib lib"
  shows "run_trial lib net0 inp =
     (if \<exists>j<200. raises lib (set_inputs lib (reset lib net0) inp) 0 j
               \<or> raises lib (set_inputs lib (reset lib net0) inp) 1 j
      then Inl IndexError
      else Inr (state_after lib (set_inputs lib (reset lib net0) inp)
                  (map fst (neurons lib net0)) 200))"
proof -
  have ids: "map fst (neurons lib net0) = map fst (neurons lib (set_inputs lib (reset lib net0) inp))"
    using wf by (simp add: wf_set_inputs wf_reset)
  show ?thesis
    unfolding run_trial_def py_range_num_steps trial_start_state_after
    by (rule steps_state_after[OF wf ids])
qed

subsection \<open>Steps that keep a recorded spike, and the network they leave\<close>

lemma first_spike_keeps: "a \<noteq> None \<Longrightarrow> first_spike lib n nd out k (a, b) = Inr (a, b)"
  by (auto simp: first_spike_def)

lemma step_keeps:
  assumes "step lib j s = Inr s'"
  shows "(t0 s \<noteq> None \<longrightarrow> t0 s' = t0 s \<and> v0 s' = v0 s)
       \<and> (t1 s \<noteq> None \<longrightarrow> t1 s' = t1 s \<and> v1 s' = v1 s)"
  using assms
  by (auto simp: step_def first_spike_keeps split: prod.splits sum.splits)

lemma steps_keeps:
  "steps lib js s = Inr s' \<Longrightarrow>
     (t0 s \<noteq> None \<longrightarrow> t0 s' = t0 s \<and> v0 s' = v0 s)
   \<and> (t1 s \<noteq> None \<longrightarrow> t1 s' = t1 s \<and> v1 s' = v1 s)"
proof (induction js arbitrary: s)
  case Nil
  then show ?case by simp
next
  case (Cons j js)
  from Cons.prems obtain s1 where s1: "step lib j s = Inr s1" and rest: "steps lib js s1 = Inr s'"
    by (auto split: sum.splits)
  from step_keeps[OF s1] Cons.IH[OF rest] show ?case by auto
qed

lemma step_net: "step lib j s = Inr s' \<Longrightarrow> net s' = snd (advance lib (net s) dt)"
  by (auto simp: step_def split: prod.splits sum.splits)

lemma steps_net: "steps lib js s = Inr s' \<Longrightarrow> net s' = net_at lib (net s) (length js)"
proof (induction js arbitrary: s)
  case Nil
  then show ?case by (simp add: net_at_0)
next
  case (Cons j js)
  from Cons.prems obtain s1 where s1: "step lib j s = Inr s1" and rest: "steps lib js s1 = Inr s'"
    by (auto split: sum.splits)
  show ?case
    using Cons.IH[OF rest] step_net[OF s1] by (simp add: net_at_Suc_front)
qed

lemma iterations_le: "iterations lib js s \<le> length js"
  by (induction js arbitrary: s) (auto split: sum.splits)

lemma iterations_ok: "steps lib js s = Inr s' \<Longrightarrow> iterations lib js s = length js"
  by (induction js arbitrary: s) (auto split: sum.splits)

subsection \<open>Runs of the scripted network\<close>

lemma wf_scripted: "wf_lib scripted_lib"
  by (auto simp: wf_lib_def scripted_lib_def image_iff)

lemma net_at_scripted: "net_at scripted_lib (f0, f1, c) k = (f0, f1, c + k)"
  by (induction k) (simp_all add: net_at_0 net_at_Suc, simp add: scripted_lib_def)

lemma output_at_scripted: "output_at scripted_lib (f0, f1, c) j = [fires f0 (c + j), fires f1 (c + j)]"
  by (simp add: output_at_def net_at_scripted) (simp add: scripted_lib_def)

lemma outputs_scripted: "outputs scripted_lib n = [0, 1]"
  by (simp add: scripted_lib_def)

lemma neurons_scripted: "neurons scripted_lib (f0, f1, c) = [(0, real c), (1, - real c)]"
  by (simp add: scripted_lib_def)

lemma start_scripted: "set_inputs scripted_lib (reset scripted_lib (f0, f1, c)) inp = (f0, f1, 0)"
  by (simp add: scripted_lib_def)

lemma net_start_scripted: "net (trial_start scripted_lib (f0, f1, c) inp) = (f0, f1, 0)"
  by (simp add: trial_start_def start_scripted)

lemma fired_at_scripted:
  "fired_at scripted_lib (f0, f1, c) 0 j \<longleftrightarrow> f0 \<le> c + j \<and> (c + j - f0) mod 3 = 0"
  "fired_at scripted_lib (f0, f1, c) (Suc 0) j \<longleftrightarrow> f1 \<le> c + j \<and> (c + j - f1) mod 3 = 0"
  by (simp_all add: fired_at_def output_at_scripted fires_def)

lemma raises_scripted:
  "0 < f0 \<Longrightarrow> 0 < f1 \<Longrightarrow> k = 0 \<or> k = 1 \<Longrightarrow> \<not> raises scripted_lib (f0, f1, 0) k j"
  by (auto simp: raises_def output_at_scripted outputs_scripted fires_def)

lemma run_scripted:
  "0 < f0 \<Longrightarrow> 0 < f1 \<Longrightarrow>
   run_trial scripted_lib (f0, f1, c) inp = Inr (state_after scripted_lib (f0, f1, 0) [0, 1] 200)"
  by (simp add: run_trial_wf[OF wf_scripted] start_scripted raises_scripted neurons_scripted)

lemma run_silent:
  "run_trial scripted_lib (200, 200, c) inp = Inr (state_after scripted_lib (200, 200, 0) [0, 1] 200)"
  by (simp add: run_scripted)

lemma silent_state:
  "t0 (state_after scripted_lib (200, 200, 0) [0, 1] 200) = None"
  "t1 (state_after scripted_lib (200, 200, 0) [0, 1] 200) = None"
  "net (state_after scripted_lib (200, 200, 0) [0, 1] 200) = (200, 200, 200)"
proof -
  have "find (fired_at scripted_lib (200, 200, 0) 0) [0..<200] = None"
    by (rule find_upt_none) (simp add: fired_at_scripted)
  then show "t0 (state_after scripted_lib (200, 200, 0) [0, 1] 200) = None"
    by (simp only: state_after_def slot_after_def) simp
  have "find (fired_at scripted_lib (200, 200, 0) 1) [0..<200] = None"
    by (rule find_upt_none) (simp add: fired_at_scripted)
  then show "t1 (state_after scripted_lib (200, 200, 0) [0, 1] 200) = None"
    by (simp only: state_after_def slot_after_def) simp
  show "net (state_after scripted_lib (200, 200, 0) [0, 1] 200) = (200, 200, 200)"
    by (simp add: state_after_def net_at_scripted)
qed

subsection \<open>The loop over the truth table\<close>

lemma trials_Cons_Inr:
  assumes "trials lib ((inputData, outputData) # rest) n acc sim = Inr r"
  obtains s where "run_trial lib n inputData = Inr s"
    and "trials lib rest (net s) (fl (acc + squared_error s outputData))
           (sim @ [trial_record_of inputData outputData s]) = Inr r"
  using assms
  by (auto simp: Let_def squared_error_def trial_record_of_def split: sum.splits)

lemma fl_neg_ints: "fl (- 1) = - 1" "fl (- 2) = - 2" "fl (- 9) = - 9"
  using fl_minus[of 1] fl_minus[of 2] fl_minus[of 9] by (simp_all add: fl_ints)

lemma firing_state:
  "t0 (state_after scripted_lib (3, 5, 0) [0, 1] 200) = Some (1 / 2)"
  "t1 (state_after scripted_lib (3, 5, 0) [0, 1] 200) = Some 1"
  "net (state_after scripted_lib (3, 5, 0) [0, 1] 200) = (3, 5, 200)"
proof -
  have f0: "find (fired_at scripted_lib (3, 5, 0) 0) [0..<200] = Some 3"
    by (rule find_upt_first) (simp_all add: fired_at_scripted)
  have "slot_after scripted_lib (3, 5, 0) 0 200 = (Some (1 / 2), Some 3)"
    unfolding slot_after_def f0
    by (simp add: lookback_def sample_at_def net_at_scripted outputs_scripted neurons_scripted
        dt_def)
  then show "t0 (state_after scripted_lib (3, 5, 0) [0, 1] 200) = Some (1 / 2)"
    by (simp add: state_after_def)
  have f1: "find (fired_at scripted_lib (3, 5, 0) (Suc 0)) [0..<200] = Some 5"
    by (rule find_upt_first) (simp_all add: fired_at_scripted)
  have "slot_after scripted_lib (3, 5, 0) (Suc 0) 200 = (Some 1, Some (- 5))"
    unfolding slot_after_def f1
    by (simp add: lookback_def sample_at_def net_at_scripted outputs_scripted neurons_scripted
        dt_def)
  then show "t1 (state_after scripted_lib (3, 5, 0) [0, 1] 200) = Some 1"
    by (simp add: state_after_def)
  show "net (state_after scripted_lib (3, 5, 0) [0, 1] 200) = (3, 5, 200)"
    by (simp add: state_after_def net_at_scripted)
qed

lemma run_firing:
  "run_trial scripted_lib (3, 5, c) inp = Inr (state_after scripted_lib (3, 5, 0) [0, 1] 200)"
  by (simp add: run_scripted)

section \<open>The claims about \<^verbatim>\<open>simulate\<close>\<close>

text \<open>
  Claim C3. When \<^verbatim>\<open>simulate\<close> returns, it has run the four trials of the truth table in
  order, each from the network the one before left, and all four returned. Its records
  are the records of these trials, and the error it returns is the sum, in the order
  and with the binary64 additions of the loop, of the four terms
  \<open>(response - expected)\<^sup>2\<close>, each response decoded from the first-spike times of its
  trial. \<^verbatim>\<open>eval_fitness\<close> gives the genome the fitness \<open>1 - error\<close>, as it is, without
  clamping, and goes on with the other genomes. With four worst-case responses the
  error is 10 and the fitness \<open>-9\<close>.
\<close>

theorem simulate_error_sum:
  assumes "simulate lib genome = Inr (sse, simulated)"
  shows "\<exists>s1 s2 s3 s4.
        run_trial lib (create_phenotype lib genome) (0, 0) = Inr s1
      \<and> run_trial lib (net s1) (0, 1) = Inr s2
      \<and> run_trial lib (net s2) (1, 0) = Inr s3
      \<and> run_trial lib (net s3) (1, 1) = Inr s4
      \<and> simulated = [trial_record_of (0, 0) 0 s1, trial_record_of (0, 1) 1 s2,
                      trial_record_of (1, 0) 1 s3, trial_record_of (1, 1) 0 s4]
      \<and> sse = fl (fl (fl (fl (0 + squared_error s1 0) + squared_error s2 1)
                        + squared_error s3 1) + squared_error s4 0)
      \<and> eval_fitness lib (genome # rest) =
           (genome\<lparr>fitness := Some (fl (1 - sse))\<rparr> # fst (eval_fitness lib rest),
            snd (eval_fitness lib rest))"
proof -
  from assms have "trials lib [((0, 0), 0), ((0, 1), 1), ((1, 0), 1), ((1, 1), 0)]
      (create_phenotype lib genome) 0 [] = Inr (sse, simulated)"
    by (simp add: simulate_def xor_inputs_def xor_outputs_def del: trials.simps)
  then obtain s1 where r1: "run_trial lib (create_phenotype lib genome) (0, 0) = Inr s1"
    and t1: "trials lib [((0, 1), 1), ((1, 0), 1), ((1, 1), 0)] (net s1)
        (fl (0 + squared_error s1 0)) ([] @ [trial_record_of (0, 0) 0 s1]) = Inr (sse, simulated)"
    by (rule trials_Cons_Inr)
  from t1 obtain s2 where r2: "run_trial lib (net s1) (0, 1) = Inr s2"
    and t2: "trials lib [((1, 0), 1), ((1, 1), 0)] (net s2)
        (fl (fl (0 + squared_error s1 0) + squared_error s2 1))
        (([] @ [trial_record_of (0, 0) 0 s1]) @ [trial_record_of (0, 1) 1 s2]) = Inr (sse, simulated)"
    by (rule trials_Cons_Inr)
  from t2 obtain s3 where r3: "run_trial lib (net s2) (1, 0) = Inr s3"
    and t3: "trials lib [((1, 1), 0)] (net s3)
        (fl (fl (fl (0 + squared_error s1 0) + squared_error s2 1) + squared_error s3 1))
        ((([] @ [trial_record_of (0, 0) 0 s1]) @ [trial_record_of (0, 1) 1 s2])
           @ [trial_record_of (1, 0) 1 s3]) = Inr (sse, simulated)"
    by (rule trials_Cons_Inr)
  from t3 obtain s4 where r4: "run_trial lib (net s3) (1, 1) = Inr s4"
    and t4: "trials lib [] (net s4)
        (fl (fl (fl (fl (0 + squared_error s1 0) + squared_error s2 1) + squared_error s3 1)
           + squared_error s4 0))
        (((([] @ [trial_record_of (0, 0) 0 s1]) @ [trial_record_of (0, 1) 1 s2])
           @ [trial_record_of (1, 0) 1 s3]) @ [trial_record_of (1, 1) 0 s4]) = Inr (sse, simulated)"
    by (rule trials_Cons_Inr)
  from t4 have sse: "sse = fl (fl (fl (fl (0 + squared_error s1 0) + squared_error s2 1)
                        + squared_error s3 1) + squared_error s4 0)"
    and sim: "simulated = [trial_record_of (0, 0) 0 s1, trial_record_of (0, 1) 1 s2,
                      trial_record_of (1, 0) 1 s3, trial_record_of (1, 1) 0 s4]"
    by simp_all
  have ev: "eval_fitness lib (genome # rest) =
           (genome\<lparr>fitness := Some (fl (1 - sse))\<rparr> # fst (eval_fitness lib rest),
            snd (eval_fitness lib rest))"
    using assms by (simp add: split_beta)
  show ?thesis
    by (intro exI[of _ s1] exI[of _ s2] exI[of _ s3] exI[of _ s4] conjI)
       (rule r1 r2 r3 r4 sim sse ev)+
qed

theorem simulate_error_sum_witness:
  "(\<exists>simulated. simulate scripted_lib \<lparr>genes = (200, 200, 0), fitness = None\<rparr> = Inr (10, simulated)
       \<and> length simulated = 4)
   \<and> eval_fitness scripted_lib [\<lparr>genes = (200, 200, 0), fitness = None\<rparr>]
       = ([\<lparr>genes = (200, 200, 0), fitness = Some (- 9)\<rparr>], None)
   \<and> (\<exists>simulated. simulate scripted_lib \<lparr>genes = (3, 5, 0), fitness = None\<rparr> = Inr (2, simulated)
       \<and> length simulated = 4)
   \<and> eval_fitness scripted_lib [\<lparr>genes = (3, 5, 0), fitness = None\<rparr>]
       = ([\<lparr>genes = (3, 5, 0), fitness = Some (- 1)\<rparr>], None)"
proof -
  let ?g = "\<lparr>genes = (200, 200, 0), fitness = None\<rparr> :: scripted genome"
  let ?h = "\<lparr>genes = (3, 5, 0), fitness = None\<rparr> :: scripted genome"
  have cp: "create_phenotype scripted_lib ?g = (200, 200, 0)"
    "create_phenotype scripted_lib ?h = (3, 5, 0)"
    by (simp_all add: scripted_lib_def)
  have "\<exists>simulated. simulate scripted_lib ?g = Inr (10, simulated)"
    by (simp add: simulate_def cp xor_inputs_def xor_outputs_def run_silent silent_state
        compute_output_def fl_ints fl_neg_ints fl_0)
  then obtain sim_g where g: "simulate scripted_lib ?g = Inr (10, sim_g)" ..
  have one: "compute_output (Some (1 / 2)) (Some 1) = 1"
    by (rule decode_plateau) simp
  have "\<exists>simulated. simulate scripted_lib ?h = Inr (2, simulated)"
    by (simp add: simulate_def cp xor_inputs_def xor_outputs_def run_firing firing_state
        one fl_ints fl_neg_ints fl_0)
  then obtain sim_h where h: "simulate scripted_lib ?h = Inr (2, sim_h)" ..
  from simulate_error_sum[OF g, of "[]"]
  have len_g: "length sim_g = 4"
    and ev_g: "eval_fitness scripted_lib [?g] = ([?g\<lparr>fitness := Some (fl (1 - 10))\<rparr>], None)"
    by auto
  from simulate_error_sum[OF h, of "[]"]
  have len_h: "length sim_h = 4"
    and ev_h: "eval_fitness scripted_lib [?h] = ([?h\<lparr>fitness := Some (fl (1 - 2))\<rparr>], None)"
    by auto
  have a: "\<exists>simulated. simulate scripted_lib ?g = Inr (10, simulated) \<and> length simulated = 4"
    by (intro exI[of _ sim_g] conjI) (rule g len_g)+
  have b: "eval_fitness scripted_lib [?g] = ([\<lparr>genes = (200, 200, 0), fitness = Some (- 9)\<rparr>], None)"
    using ev_g by (simp add: fl_neg_ints)
  have c: "\<exists>simulated. simulate scripted_lib ?h = Inr (2, simulated) \<and> length simulated = 4"
    by (intro exI[of _ sim_h] conjI) (rule h len_h)+
  have d: "eval_fitness scripted_lib [?h] = ([\<lparr>genes = (3, 5, 0), fitness = Some (- 1)\<rparr>], None)"
    using ev_h by (simp add: fl_neg_ints)
  show ?thesis
    by (intro conjI) (rule a b c d)+
qed

text \<open>
  Claim C4. On a library that keeps its neuron ids, let a trial return, and let \<open>j\<close> be
  the first step in which output slot \<open>k\<close> fires. Then \<open>j\<close> is at least 1, the recorded
  time is \<open>(j - 1) * dt\<close>, and the recorded pair is the sample number \<open>j - 1\<close> of the trace
  of the neuron \<^verbatim>\<open>net.outputs[k]\<close>: its potential is the one that neuron had after the
  call of \<open>advance\<close> in step \<open>j - 1\<close>.
\<close>

theorem first_spike_is_previous_sample:
  assumes wf: "wf_lib lib"
    and run: "run_trial lib net0 inputData = Inr s"
    and n: "n = net (trial_start lib net0 inputData)"
    and j: "j \<in> set (py_range num_steps)"
    and fire: "fired_at lib n k j"
    and first: "\<forall>i<j. \<not> fired_at lib n k i"
    and k: "k = 0 \<or> k = 1"
    and key: "key = outputs lib (net_at lib n (Suc j)) ! k"
  shows "1 \<le> j
       \<and> (\<exists>v xs. recorded k s = (Some (dt * (real j - 1)), Some v)
             \<and> (key, v) \<in> set (neurons lib (net_at lib n j))
             \<and> neuron_data s key = Some xs \<and> length xs = 200
             \<and> xs ! (j - 1) = (dt * (real j - 1), v))"
proof -
  let ?ids = "map fst (neurons lib net0)"
  have n': "n = set_inputs lib (reset lib net0) inputData"
    using n by (simp add: trial_start_def)
  have j200: "j < 200"
    using j by (simp only: py_range_num_steps) simp
  from run have noraise: "\<not> (\<exists>j<200. raises lib n 0 j \<or> raises lib n 1 j)"
    and s: "s = state_after lib n ?ids 200"
    unfolding run_trial_wf[OF wf] n' by (simp_all split: if_splits)
  have ids: "?ids = map fst (neurons lib n)"
    unfolding n' using wf by (simp add: wf_set_inputs wf_reset)
  have nr: "\<not> raises lib n k j"
    using noraise j200 k by auto
  have before: "find (fired_at lib n k) [0..<j] = None"
    using first by (rule find_upt_none)
  then have "fst (slot_after lib n k j) = None"
    by (simp only: slot_after_None)
  with nr fire have j0: "j \<noteq> 0" and klen: "k < length (outputs lib (net_at lib n (Suc j)))"
    by (auto simp: raises_def fired_at_def)
  have fnd: "find (fired_at lib n k) [0..<200] = Some j"
    using j200 fire first by (rule find_upt_first)
  have slot: "slot_after lib n k 200 = lookback lib n k j"
    by (simp only: slot_after_def fnd option.case)
  have "recorded k s = slot_after lib n k 200"
    using k by (auto simp: recorded_def s state_after_def)
  then have rec: "recorded k s = lookback lib n k j"
    by (simp only: slot)
  have "key \<in> set (outputs lib (net_at lib n (Suc j)))"
    using klen key by simp
  then have "key \<in> set (map fst (neurons lib (net_at lib n (Suc j))))"
    using wf_outputs[OF wf] by blast
  then have kin: "key \<in> set ?ids"
    using wf ids by (simp add: wf_ids_net_at)
  then have "key \<in> set (map fst (neurons lib (net_at lib n j)))"
    using wf ids by (simp add: wf_ids_net_at)
  then obtain v where v: "map_of (neurons lib (net_at lib n j)) key = Some v"
    by (metis map_of_eq_None_iff not_Some_eq set_map)
  have sj: "Suc (j - 1) = j" using j0 by simp
  have rj: "real (j - 1) = real j - 1" using j0 by (simp add: of_nat_diff)
  have smp: "sample_at lib n key (j - 1) = (dt * (real j - 1), v)"
    unfolding sample_at_def sj rj v by simp
  have r1: "recorded k s = (Some (dt * (real j - 1)), Some v)"
    unfolding rec lookback_def Let_def key[symmetric] smp by simp
  have r2: "(key, v) \<in> set (neurons lib (net_at lib n j))"
    using v by (rule map_of_SomeD)
  let ?xs = "map (sample_at lib n key) [0..<200]"
  have r3: "neuron_data s key = Some ?xs"
    using kin by (simp add: s state_after_def traces_def del: upt_rec_numeral)
  have r4: "length ?xs = 200" by (simp del: upt_rec_numeral)
  have "j - 1 < 200" using j200 by simp
  then have "?xs ! (j - 1) = sample_at lib n key (j - 1)"
    by (simp del: upt_rec_numeral)
  then have r5: "?xs ! (j - 1) = (dt * (real j - 1), v)"
    by (simp only: smp)
  have r0: "1 \<le> j" using j0 by simp
  show ?thesis
    by (intro conjI exI[of _ v] exI[of _ ?xs]) (rule r0 r1 r2 r3 r4 r5)+
qed

theorem first_spike_is_previous_sample_witness:
  "\<exists>s. run_trial scripted_lib (3, 5, 0) (0, 1) = Inr s
      \<and> fired_at scripted_lib (3, 5, 0) 0 3
      \<and> t0 s = Some (1 / 2) \<and> v0 s = Some 3
      \<and> fired_at scripted_lib (3, 5, 0) 1 5
      \<and> t1 s = Some 1 \<and> v1 s = Some (- 5)"
proof -
  let ?s = "state_after scripted_lib (3, 5, 0) [0, 1] 200"
  let ?n = "(3, 5, 0) :: scripted"
  have run: "run_trial scripted_lib ?n (0, 1) = Inr ?s"
    by (simp add: run_scripted)
  have n: "?n = net (trial_start scripted_lib ?n (0, 1))"
    by (simp only: net_start_scripted)
  have j3: "3 \<in> set (py_range num_steps)" and j5: "5 \<in> set (py_range num_steps)"
    by (simp_all only: py_range_num_steps) simp_all
  have f0: "fired_at scripted_lib ?n 0 3" and b0: "\<forall>i<3. \<not> fired_at scripted_lib ?n 0 i"
    by (simp_all add: fired_at_scripted)
  have f1: "fired_at scripted_lib ?n 1 5" and b1: "\<forall>i<5. \<not> fired_at scripted_lib ?n 1 i"
    by (simp_all add: fired_at_scripted)
  from first_spike_is_previous_sample[OF wf_scripted run n j3 f0 b0 _ refl]
  obtain v where v: "recorded 0 ?s = (Some (dt * (real 3 - 1)), Some v)"
    "(outputs scripted_lib (net_at scripted_lib ?n (Suc 3)) ! 0, v)
       \<in> set (neurons scripted_lib (net_at scripted_lib ?n 3))"
    by auto
  from first_spike_is_previous_sample[OF wf_scripted run n j5 f1 b1 _ refl]
  obtain w where w: "recorded 1 ?s = (Some (dt * (real 5 - 1)), Some w)"
    "(outputs scripted_lib (net_at scripted_lib ?n (Suc 5)) ! 1, w)
       \<in> set (neurons scripted_lib (net_at scripted_lib ?n 5))"
    by auto
  have v3: "v = 3"
    using v(2) by (simp add: outputs_scripted net_at_scripted neurons_scripted)
  have w5: "w = - 5"
    using w(2) by (simp add: outputs_scripted net_at_scripted neurons_scripted)
  have a: "t0 ?s = Some (1 / 2)" and b: "v0 ?s = Some 3"
    using v(1) v3 by (simp_all add: recorded_def dt_def)
  have c: "t1 ?s = Some 1" and d: "v1 ?s = Some (- 5)"
    using w(1) w5 by (simp_all add: recorded_def dt_def)
  show ?thesis
    by (intro exI[of _ ?s] conjI) (rule run f0 a b f1 c d)+
qed

text \<open>
  Claim C6. Once the time of a slot is no longer \<^verbatim>\<open>None\<close>, no later step of the loop
  changes the recorded time and potential of that slot, whatever fires in these steps.
\<close>

theorem recorded_spike_unchanged:
  assumes "steps lib js s = Inr s'"
  shows "(t0 s \<noteq> None \<longrightarrow> t0 s' = t0 s \<and> v0 s' = v0 s)
       \<and> (t1 s \<noteq> None \<longrightarrow> t1 s' = t1 s \<and> v1 s' = v1 s)"
  using assms by (rule steps_keeps)

theorem recorded_spike_unchanged_witness:
  "\<exists>s3 s. steps scripted_lib [0..<3] (trial_start scripted_lib (2, 5, 0) (0, 1)) = Inr s3
      \<and> steps scripted_lib [3..<200] s3 = Inr s
      \<and> fired_at scripted_lib (2, 5, 0) 0 2 \<and> fired_at scripted_lib (2, 5, 0) 0 5
      \<and> t0 s3 = Some (1 / 4) \<and> v0 s3 = Some 2 \<and> t0 s = Some (1 / 4) \<and> v0 s = Some 2"
proof -
  let ?start = "trial_start scripted_lib (2, 5, 0) (0, 1)"
  let ?s3 = "state_after scripted_lib (2, 5, 0) [0, 1] 3"
  let ?s = "state_after scripted_lib (2, 5, 0) [0, 1] 200"
  have run: "steps scripted_lib [0..<200] ?start = Inr ?s"
    using run_scripted[of 2 5 0 "(0, 1)"] by (simp only: run_trial_def py_range_num_steps)
  have split: "[0..<200] = [0..<3] @ [3..<200]"
    using upt_add_eq_append[of 0 3 197] by (simp del: upt_rec_numeral)
  have ids: "[0, 1] = map fst (neurons scripted_lib (2, 5, 0))"
    by (simp add: neurons_scripted)
  have start: "?start = state_after scripted_lib (2, 5, 0) [0, 1] 0"
    by (simp add: trial_start_state_after start_scripted neurons_scripted)
  have first: "steps scripted_lib [0..<3] ?start = Inr ?s3"
    unfolding start steps_state_after[OF wf_scripted ids]
    by (simp add: raises_scripted)
  have rest: "steps scripted_lib [3..<200] ?s3 = Inr ?s"
    using run unfolding split steps_append first by (simp del: upt_rec_numeral)
  have f: "find (fired_at scripted_lib (2, 5, 0) 0) [0..<3] = Some 2"
    by (rule find_upt_first) (simp_all add: fired_at_scripted)
  have slot: "slot_after scripted_lib (2, 5, 0) 0 3 = (Some (1 / 4), Some 2)"
    unfolding slot_after_def f
    by (simp add: lookback_def sample_at_def net_at_scripted outputs_scripted neurons_scripted
        dt_def)
  have t: "t0 ?s3 = Some (1 / 4)" and v: "v0 ?s3 = Some 2"
    by (simp_all add: state_after_def slot)
  have keep: "t0 ?s = t0 ?s3 \<and> v0 ?s = v0 ?s3"
    using recorded_spike_unchanged[OF rest] t by simp
  have fire: "fired_at scripted_lib (2, 5, 0) 0 2" "fired_at scripted_lib (2, 5, 0) 0 5"
    by (simp_all add: fired_at_scripted)
  have t': "t0 ?s = Some (1 / 4)" and v': "v0 ?s = Some 2"
    using keep t v by (simp_all only:)
  show ?thesis
    by (intro exI[of _ ?s3] exI[of _ ?s] conjI) (rule first rest fire t v t' v')+
qed

text \<open>
  The bound of the step loop. The number of steps is \<open>\<lfloor>max_time / dt\<rfloor> = 200\<close>. The loop
  enters at most 200 iterations, so it ends. A trial that returns has entered exactly
  200 of them: it leaves the network after 200 calls of \<open>advance\<close>, and on a library
  that keeps its neuron ids every trace holds 200 samples, the one of step \<open>j\<close> with the
  time \<open>j * dt\<close>.
\<close>

lemma step_loop_bounded:
  "num_steps = \<lfloor>max_time / dt\<rfloor> \<and> num_steps = 200 \<and> py_range num_steps = [0..<200]
   \<and> iterations lib (py_range num_steps) (trial_start lib net0 inputData) \<le> 200
   \<and> (run_trial lib net0 inputData = Inr s \<longrightarrow>
        iterations lib (py_range num_steps) (trial_start lib net0 inputData) = 200
      \<and> net s = net_at lib (net (trial_start lib net0 inputData)) 200
      \<and> (wf_lib lib \<longrightarrow>
          (\<forall>i xs. neuron_data s i = Some xs \<longrightarrow> map fst xs = map (\<lambda>j. dt * real j) [0..<200])))"
proof -
  have a: "num_steps = \<lfloor>max_time / dt\<rfloor>"
    by (simp add: num_steps_def py_int_def max_time_def dt_def)
  have b: "iterations lib (py_range num_steps) (trial_start lib net0 inputData) \<le> 200"
    using iterations_le[of lib "[0..<200]"] by (simp add: py_range_num_steps)
  have c: "iterations lib (py_range num_steps) (trial_start lib net0 inputData) = 200"
    and d: "net s = net_at lib (net (trial_start lib net0 inputData)) 200"
    if "run_trial lib net0 inputData = Inr s"
    using that iterations_ok[of lib "[0..<200]" _ s] steps_net[of lib "[0..<200]" _ s]
    by (simp_all add: run_trial_def py_range_num_steps)
  have e: "map fst xs = map (\<lambda>j. dt * real j) [0..<200]"
    if run: "run_trial lib net0 inputData = Inr s" and wf: "wf_lib lib"
      and xs: "neuron_data s i = Some xs" for i xs
  proof -
    from run have "s = state_after lib (set_inputs lib (reset lib net0) inputData)
        (map fst (neurons lib net0)) 200"
      by (simp add: run_trial_wf[OF wf] split: if_splits)
    then have "xs = map (sample_at lib (set_inputs lib (reset lib net0) inputData) i) [0..<200]"
      using xs by (simp add: state_after_def traces_def split: if_splits)
    then show ?thesis
      by (simp add: sample_at_def comp_def)
  qed
  from a b c d e num_steps_200 py_range_num_steps show ?thesis by blast
qed

lemma step_loop_bounded_scripted:
  "\<exists>s. run_trial scripted_lib (3, 5, 0) (1, 0) = Inr s \<and> wf_lib scripted_lib
     \<and> iterations scripted_lib (py_range num_steps) (trial_start scripted_lib (3, 5, 0) (1, 0)) = 200
     \<and> net s = (3, 5, 200)
     \<and> (\<exists>xs. neuron_data s 1 = Some xs \<and> map fst xs = map (\<lambda>j. dt * real j) [0..<200])"
proof -
  let ?s = "state_after scripted_lib (3, 5, 0) [0, 1] 200"
  let ?xs = "map (sample_at scripted_lib (3, 5, 0) 1) [0..<200]"
  have run: "run_trial scripted_lib (3, 5, 0) (1, 0) = Inr ?s"
    by (simp add: run_scripted)
  have nd: "neuron_data ?s 1 = Some ?xs"
    by (simp add: state_after_def traces_def del: upt_rec_numeral)
  note bound = step_loop_bounded[of scripted_lib "(3, 5, 0)" "(1, 0)" ?s]
  have it: "iterations scripted_lib (py_range num_steps) (trial_start scripted_lib (3, 5, 0) (1, 0)) = 200"
    using bound run by blast
  have "net ?s = net_at scripted_lib (net (trial_start scripted_lib (3, 5, 0) (1, 0))) 200"
    using bound run by blast
  then have n: "net ?s = (3, 5, 200)"
    by (simp only: net_start_scripted net_at_scripted) simp
  have times: "map fst ?xs = map (\<lambda>j. dt * real j) [0..<200]"
    using bound run wf_scripted nd by blast
  show ?thesis
    by (intro exI[of _ ?s] exI[of _ ?xs] conjI) (rule run wf_scripted it n nd times)+
qed

text \<open>
  Claim C7. The claim is that the step loop runs 200 iterations in every trial. The
  code does not: on the scripted network \<open>(0, 5, 0)\<close>, whose output 0 fires in the first
  step, the look-back \<^verbatim>\<open>neuron_data[net.outputs[0]][-2]\<close> finds a trace of one sample and
  raises \<^verbatim>\<open>IndexError\<close>, and the loop has entered one iteration of the 200.
\<close>

theorem step_loop_aborts:
  "run_trial scripted_lib (0, 5, 0) (0, 0) = Inl IndexError
   \<and> iterations scripted_lib (py_range num_steps) (trial_start scripted_lib (0, 5, 0) (0, 0)) = 1
   \<and> num_steps = 200"
proof -
  let ?start = "trial_start scripted_lib (0, 5, 0) (0, 0)"
  have ids: "[0, 1] = map fst (neurons scripted_lib (0, 5, 0))"
    by (simp add: neurons_scripted)
  have st: "?start = state_after scripted_lib (0, 5, 0) [0, 1] 0"
    by (simp add: trial_start_state_after start_scripted neurons_scripted)
  have r: "raises scripted_lib (0, 5, 0) 0 0"
    by (simp add: raises_def slot_after_0 output_at_scripted fires_def)
  have step0: "step scripted_lib 0 ?start = Inl IndexError"
    unfolding st using step_state_after[OF wf_scripted ids, of 0] r by simp
  have l: "[0..<200] = 0 # [Suc 0..<200]"
    by (rule upt_conv_Cons) simp
  have run: "run_trial scripted_lib (0, 5, 0) (0, 0) = Inl IndexError"
    unfolding run_trial_def py_range_num_steps l steps.simps step0 by simp
  have it: "iterations scripted_lib (py_range num_steps) ?start = 1"
    unfolding py_range_num_steps l iterations.simps step0 by simp
  from run it num_steps_200 show ?thesis by (intro conjI)
qed

text \<open>
  Claim C10. On a library that keeps its neuron ids, when an output fires in the first
  step of a trial, every trace holds one sample at the look-back, the index \<open>-2\<close> is out
  of range, and the trial, hence \<^verbatim>\<open>simulate\<close>, raises \<^verbatim>\<open>IndexError\<close>.
\<close>

theorem first_step_spike_raises:
  assumes wf: "wf_lib lib"
    and fire: "fired_at lib (net (trial_start lib net0 inputData)) 0 0
             \<or> fired_at lib (net (trial_start lib net0 inputData)) 1 0"
  shows "run_trial lib net0 inputData = Inl IndexError
       \<and> trials lib ((inputData, outputData) # rest) net0 sse simulated = Inl IndexError
       \<and> (net0 = create_phenotype lib genome \<and> inputData = (0, 0)
            \<longrightarrow> simulate lib genome = Inl IndexError)
       \<and> (\<exists>nd. append_samples
                  (neurons lib (snd (advance lib (net (trial_start lib net0 inputData)) dt)))
                  (dt * 0) (neuron_data (trial_start lib net0 inputData)) = Inr nd
              \<and> (\<forall>i xs. nd i = Some xs \<longrightarrow>
                    length xs = 1 \<and> py_index xs (- 2) = Inl IndexError))"
proof -
  let ?n = "set_inputs lib (reset lib net0) inputData"
  let ?ids = "map fst (neurons lib net0)"
  have n: "net (trial_start lib net0 inputData) = ?n"
    by (simp add: trial_start_def)
  have ids: "?ids = map fst (neurons lib ?n)"
    using wf by (simp add: wf_set_inputs wf_reset)
  have "raises lib ?n 0 0 \<or> raises lib ?n 1 0"
    using fire unfolding n by (auto simp: raises_def fired_at_def slot_after_0)
  then have "\<exists>j<200. raises lib ?n 0 j \<or> raises lib ?n 1 j"
    by (intro exI[of _ 0]) simp
  then have run: "run_trial lib net0 inputData = Inl IndexError"
    by (simp only: run_trial_wf[OF wf] if_True)
  then have tr: "trials lib ((inputData, outputData) # rest) net0 sse simulated = Inl IndexError"
    for outputData rest sse simulated
    by simp
  have sim: "net0 = create_phenotype lib genome \<and> inputData = (0, 0)
      \<longrightarrow> simulate lib genome = Inl IndexError"
    using tr[of 0 "[((0, 1), 1), ((1, 0), 1), ((1, 1), 0)]" 0 "[]"]
    by (auto simp: simulate_def xor_inputs_def xor_outputs_def simp del: trials.simps)
  have app: "append_samples (neurons lib (snd (advance lib (net (trial_start lib net0 inputData)) dt)))
      (dt * 0) (neuron_data (trial_start lib net0 inputData)) = Inr (traces lib ?n ?ids (Suc 0))"
    using append_samples_traces[OF wf ids, of 0] start_data[of lib net0 inputData ?n]
    by (simp add: n net_at_Suc net_at_0)
  have one: "\<forall>i xs. traces lib ?n ?ids (Suc 0) i = Some xs \<longrightarrow>
      length xs = 1 \<and> py_index xs (- 2) = Inl IndexError"
    by (auto simp: traces_def py_index_minus2 split: if_splits)
  have ex: "\<exists>nd. append_samples
                  (neurons lib (snd (advance lib (net (trial_start lib net0 inputData)) dt)))
                  (dt * 0) (neuron_data (trial_start lib net0 inputData)) = Inr nd
              \<and> (\<forall>i xs. nd i = Some xs \<longrightarrow>
                    length xs = 1 \<and> py_index xs (- 2) = Inl IndexError)"
    by (intro exI[of _ "traces lib ?n ?ids (Suc 0)"] conjI) (rule app one)+
  show ?thesis
    by (intro conjI) (rule run tr sim ex)+
qed

theorem first_step_spike_raises_witness:
  "wf_lib scripted_lib
   \<and> fired_at scripted_lib (net (trial_start scripted_lib (0, 5, 0) (0, 0))) 0 0
   \<and> run_trial scripted_lib (0, 5, 0) (0, 0) = Inl IndexError
   \<and> simulate scripted_lib \<lparr>genes = (0, 5, 0), fitness = None\<rparr> = Inl IndexError"
proof -
  have fire: "fired_at scripted_lib (net (trial_start scripted_lib (0, 5, 0) (0, 0))) 0 0"
    by (simp add: net_start_scripted fired_at_scripted)
  then have "fired_at scripted_lib (net (trial_start scripted_lib (0, 5, 0) (0, 0))) 0 0
      \<or> fired_at scripted_lib (net (trial_start scripted_lib (0, 5, 0) (0, 0))) 1 0" ..
  note raised = first_step_spike_raises[OF wf_scripted this, of 0 "[]" 0 "[]"
      "\<lparr>genes = (0, 5, 0), fitness = None\<rparr>"]
  have run: "run_trial scripted_lib (0, 5, 0) (0, 0) = Inl IndexError"
    using raised by (elim conjE)
  have cp: "(0, 5, 0) = create_phenotype scripted_lib \<lparr>genes = (0, 5, 0), fitness = None\<rparr>"
    by (simp add: scripted_lib_def)
  have "(0, 5, 0) = create_phenotype scripted_lib \<lparr>genes = (0, 5, 0), fitness = None\<rparr>
      \<and> ((0, 0) :: int \<times> int) = (0, 0)
      \<longrightarrow> simulate scripted_lib \<lparr>genes = (0, 5, 0), fitness = None\<rparr> = Inl IndexError"
    using raised by (elim conjE)
  then have sim: "simulate scripted_lib \<lparr>genes = (0, 5, 0), fitness = None\<rparr> = Inl IndexError"
    using cp by simp
  show ?thesis
    by (intro conjI) (rule wf_scripted fire run sim)+
qed


end
